theory Spec2Isabelle
  imports Complex_Main "HOL-Library.Multiset" "HOL-Library.List_Lexorder" "HOL-Library.Sublist"
begin

section \<open>Python values\<close>

text \<open>
  A Python \<open>str\<close> is a sequence of Unicode code points; \<open>len\<close> counts code points and
  comparison is lexicographic on them. A string is therefore a list of code points, and
  the order on strings is the lexicographic order of \<open>HOL-Library.List_Lexorder\<close>.
  \<open>asc\<close> writes an ASCII literal; the Japanese text of the scripts is written as
  lists of code points.
\<close>

type_synonym ustr = "nat list"

type_synonym bytes = "nat list"

definition asc :: "string \<Rightarrow> ustr" where
  "asc s = map of_char s"

text \<open>An exception that was raised, as the text that \<open>str(e)\<close> and \<open>{e}\<close> give.\<close>

datatype exn = Exception (message: ustr)

text \<open>\<open>str(n)\<close> and the format \<open>{n}\<close> of a non-negative integer: its decimal digits.\<close>

fun str_nat :: "nat \<Rightarrow> ustr" where
  "str_nat n = (if n < 10 then [48 + n] else str_nat (n div 10) @ [48 + n mod 10])"

declare str_nat.simps [simp del]

text \<open>The format \<open>{n:02d}\<close>: the decimal digits, padded with zeros on the left to width 2.\<close>

definition fmt_02d :: "nat \<Rightarrow> ustr" where
  "fmt_02d n = (let s = str_nat n in replicate (2 - length s) 48 @ s)"

text \<open>\<open>sep.join(xs)\<close>.\<close>

fun join :: "ustr \<Rightarrow> ustr list \<Rightarrow> ustr" where
  "join sep [] = []"
| "join sep [x] = x"
| "join sep (x # y # ys) = x @ sep @ join sep (y # ys)"

text \<open>
  \<open>PurePath.stem\<close> and \<open>PurePath.suffix\<close> of a file name: the name is cut at its last
  dot, unless that dot is the first or the last character of the name (or there is none).
\<close>

definition rfind_dot :: "ustr \<Rightarrow> nat option" where
  "rfind_dot nm = (case filter (\<lambda>i. nm ! i = 46) (rev [0..<length nm]) of
                     [] \<Rightarrow> None | i # _ \<Rightarrow> Some i)"

definition stem :: "ustr \<Rightarrow> ustr" where
  "stem nm = (case rfind_dot nm of
                None \<Rightarrow> nm
              | Some i \<Rightarrow> if 0 < i \<and> i < length nm - 1 then take i nm else nm)"

definition suffix_of :: "ustr \<Rightarrow> ustr" where
  "suffix_of nm = (case rfind_dot nm of
                None \<Rightarrow> []
              | Some i \<Rightarrow> if 0 < i \<and> i < length nm - 1 then drop i nm else [])"

section \<open>Script 1: extract\_images.py\<close>

subsection \<open>The two patterns\<close>

text \<open>
  \<open>\d\<close> in a \<open>str\<close> pattern matches every Unicode decimal digit. On ASCII these are
  \<open>0\<close> to \<open>9\<close>; which code points beyond ASCII are decimal digits is a table of the
  Unicode database, taken as the parameter \<open>nd\<close>.
\<close>

definition re_digit :: "(nat \<Rightarrow> bool) \<Rightarrow> nat \<Rightarrow> bool" where
  "re_digit nd c = (if c < 128 then 48 \<le> c \<and> c \<le> 57 else nd c)"

text \<open>
  \<open>re.search\<close> tries the pattern at each position from the left and returns the first
  match. \<open>m\<close> is the pattern anchored at the head of its argument.
\<close>

fun re_search :: "(ustr \<Rightarrow> 'a option) \<Rightarrow> ustr \<Rightarrow> 'a option" where
  "re_search m [] = m []"
| "re_search m (c # cs) = (case m (c # cs) of Some g \<Rightarrow> Some g | None \<Rightarrow> re_search m cs)"

text \<open>The year pattern \<open>(20\d{2}|19\d{2})\<close> at the head of a string; the result is group 1.\<close>

fun year_at :: "(nat \<Rightarrow> bool) \<Rightarrow> ustr \<Rightarrow> ustr option" where
  "year_at nd (a # b # c # d # _) =
     (if a = 50 \<and> b = 48 \<and> re_digit nd c \<and> re_digit nd d then Some [a, b, c, d]
      else if a = 49 \<and> b = 57 \<and> re_digit nd c \<and> re_digit nd d then Some [a, b, c, d]
      else None)"
| "year_at nd _ = None"

text \<open>
  \<open>\d+\<close> followed by the rest of the pattern \<open>k\<close>: greedy, so the longer run of
  digits is tried first, and a shorter one only when the rest of the pattern fails after
  the longer one. \<open>acc\<close> holds the digits taken so far.
\<close>

fun digits_then :: "(nat \<Rightarrow> bool) \<Rightarrow> (ustr \<Rightarrow> ustr \<Rightarrow> 'a option) \<Rightarrow> ustr \<Rightarrow> ustr \<Rightarrow> 'a option" where
  "digits_then nd k acc [] = (if acc = [] then None else k acc [])"
| "digits_then nd k acc (c # cs) =
     (if re_digit nd c then
        (case digits_then nd k (acc @ [c]) cs of
           Some r \<Rightarrow> Some r
         | None \<Rightarrow> if acc = [] then None else k acc (c # cs))
      else if acc = [] then None else k acc (c # cs))"

definition is_p :: "nat \<Rightarrow> bool" where
  "is_p c = (c = 112 \<or> c = 80)"

definition is_sep :: "nat \<Rightarrow> bool" where
  "is_sep c = (c = 45 \<or> c = 95)"

text \<open>\<open>[pP]?\<close> followed by \<open>k\<close>: the letter is taken when it is there, and given back when
  \<open>k\<close> fails after it.\<close>

definition optional_p :: "(ustr \<Rightarrow> 'a option) \<Rightarrow> ustr \<Rightarrow> 'a option" where
  "optional_p k s =
     (case s of
        [] \<Rightarrow> k []
      | c # cs \<Rightarrow> if is_p c then (case k cs of Some r \<Rightarrow> Some r | None \<Rightarrow> k s) else k s)"

text \<open>The page pattern \<open>[pP](\d+)[-_][pP]?(\d+)\<close> at the head of a string; the result is
  groups 1 and 2.\<close>

definition page_at :: "(nat \<Rightarrow> bool) \<Rightarrow> ustr \<Rightarrow> (ustr \<times> ustr) option" where
  "page_at nd s =
     (case s of
        [] \<Rightarrow> None
      | p # r \<Rightarrow>
          if is_p p then
            digits_then nd
              (\<lambda>g1 r1. case r1 of
                   [] \<Rightarrow> None
                 | sep # r2 \<Rightarrow>
                     if is_sep sep
                     then optional_p (digits_then nd (\<lambda>g2 _. Some (g1, g2)) []) r2
                     else None)
              [] r
          else None)"

text \<open>Lines 35 to 43: the year and the page information taken from the stem.\<close>

definition year_of :: "(nat \<Rightarrow> bool) \<Rightarrow> ustr \<Rightarrow> ustr" where
  "year_of nd pdf_name =
     (case re_search (year_at nd) pdf_name of Some g \<Rightarrow> g | None \<Rightarrow> asc ''unknown'')"

definition page_info_of :: "(nat \<Rightarrow> bool) \<Rightarrow> ustr \<Rightarrow> ustr" where
  "page_info_of nd pdf_name =
     (case re_search (page_at nd) pdf_name of
        Some (g1, g2) \<Rightarrow> asc ''p'' @ g1 @ asc ''-p'' @ g2
      | None \<Rightarrow> asc ''full'')"

text \<open>Line 72: the file name of an image.\<close>

definition img_filename :: "ustr \<Rightarrow> ustr \<Rightarrow> nat \<Rightarrow> ustr \<Rightarrow> ustr" where
  "img_filename year page_info img_index image_ext =
     year @ asc ''_'' @ page_info @ asc ''_img'' @ fmt_02d (img_index + 1) @ asc ''.'' @ image_ext"

subsection \<open>The PDF and what the run meets in it\<close>

text \<open>
  The dictionary that \<open>doc.extract_image(xref)\<close> returns, under the names of the four
  locals that lines 62 to 65 read from it.
\<close>

record base_image =
  image_bytes :: bytes
  image_ext :: ustr
  width :: int
  height :: int

text \<open>
  An entry of \<open>page.get_images(full=True)\<close>, with what the body of the inner loop meets
  at it: the result of \<open>doc.extract_image(xref)\<close> (or the exception of lines 61 to 65,
  a missing key among them), and the exception, if there is one, of opening and writing
  the image file (lines 76 and 77).
\<close>

record pdf_image =
  xref :: nat
  extract_image :: "exn + base_image"
  save_error :: "exn option"

text \<open>A page: its images, or the exception of loading it or of \<open>get_images\<close>.\<close>

type_synonym pdf_page = "exn + pdf_image list"

record pdf_doc =
  pages :: "pdf_page list"
  close_error :: "exn option"

text \<open>
  \<open>str(Path(d) / n)\<close> on a POSIX system, for the text \<open>d\<close> of a path and a relative
  name \<open>n\<close>: the current directory \<open>.\<close> is left out, and a root (\<open>/\<close> or \<open>//\<close>, the
  only paths whose text ends with a slash) brings its own slash.
\<close>

definition joinpath :: "ustr \<Rightarrow> ustr \<Rightarrow> ustr" where
  "joinpath d n =
     (if d = asc ''.'' then n
      else if d \<noteq> [] \<and> last d = 0x2F then d @ n
      else d @ asc ''/'' @ n)"

text \<open>A \<open>Path\<close>: the text of its parent and the final component.\<close>

record pure_path =
  parent :: ustr
  name :: ustr

definition path_str :: "'a pure_path_scheme \<Rightarrow> ustr" where
  "path_str p = joinpath (parent p) (name p)"

text \<open>
  A PDF file of the batch, with what the run meets at it: the result of
  \<open>pdf_file.exists()\<close> (line 124), which is an exception for a name the system refuses
  to look up (too long, a directory that may not be searched), the exception, if there
  is one, of \<open>year_dir.mkdir\<close> (line 47), and the result of \<open>fitz.open\<close> (line 52).
\<close>

record pdf_file = pure_path +
  exists :: "exn + bool"
  mkdir_error :: "exn option"
  opened :: "exn + pdf_doc"

text \<open>The dictionary appended to \<open>extracted_images\<close> (lines 79 to 86). \<open>size_kb\<close> is
  the length divided by 1024, a division by a power of two that the float holds exactly.\<close>

record image_entry =
  filename :: ustr
  path :: ustr
  source_pdf :: ustr
  entry_width :: int
  entry_height :: int
  size_kb :: rat

text \<open>
  What a call of \<open>extract_images_from_pdf\<close> leaves: the list it returns, the image
  files it has written (path and content, in the order of the writes) and the lines it
  has printed.
\<close>

record extraction =
  returned :: "image_entry list"
  written :: "(ustr \<times> bytes) list"
  printed :: "ustr list"

text \<open>The locals set by lines 32 to 46.\<close>

record locals =
  pdf_name :: ustr
  year :: ustr
  page_info :: ustr
  year_dir :: ustr

subsection \<open>extract\_images\_from\_pdf\<close>

text \<open>Line 89, the warning of the inner handler, and line 95, the message of the outer one.\<close>

definition warning_line :: "nat \<Rightarrow> exn \<Rightarrow> ustr" where
  "warning_line x e =
     asc ''  '' @ [0x8B66, 0x544A] @ asc '': '' @ [0x753B, 0x50CF, 0x62BD, 0x51FA, 0x30A8, 0x30E9, 0x30FC]
       @ asc '' (xref='' @ str_nat x @ asc ''): '' @ message e"

definition error_line :: "ustr \<Rightarrow> exn \<Rightarrow> ustr" where
  "error_line pdf_path e =
     [0x30A8, 0x30E9, 0x30FC] @ asc '': '' @ pdf_path @ asc '' ''
       @ [0x306E, 0x51E6, 0x7406, 0x4E2D, 0x306B, 0x30A8, 0x30E9, 0x30FC] @ asc '': '' @ message e"

text \<open>Lines 58 to 90: the body of the inner loop, for the image at \<open>img_index\<close>.\<close>

definition visit_image :: "locals \<Rightarrow> nat \<Rightarrow> pdf_image \<Rightarrow> extraction \<Rightarrow> extraction" where
  "visit_image L img_index img_info acc =
     (case extract_image img_info of
        Inl e \<Rightarrow> acc\<lparr>printed := printed acc @ [warning_line (xref img_info) e]\<rparr>
      | Inr b \<Rightarrow>
          if width b < 50 \<or> height b < 50 then acc
          else
            let fname = img_filename (year L) (page_info L) img_index (image_ext b);
                img_path = joinpath (year_dir L) fname
            in (case save_error img_info of
                  Some e \<Rightarrow> acc\<lparr>printed := printed acc @ [warning_line (xref img_info) e]\<rparr>
                | None \<Rightarrow>
                    acc\<lparr>written := written acc @ [(img_path, image_bytes b)],
                        returned := returned acc @
                          [\<lparr>filename = fname, path = img_path, source_pdf = pdf_name L,
                            entry_width = width b, entry_height = height b,
                            size_kb = of_nat (length (image_bytes b)) / 1024\<rparr>]\<rparr>))"

text \<open>Line 57: \<open>for img_index, img_info in enumerate(image_list)\<close>.\<close>

fun image_loop :: "locals \<Rightarrow> nat \<Rightarrow> pdf_image list \<Rightarrow> extraction \<Rightarrow> extraction" where
  "image_loop L img_index [] acc = acc"
| "image_loop L img_index (img_info # rest) acc =
     image_loop L (img_index + 1) rest (visit_image L img_index img_info acc)"

text \<open>
  Line 54: \<open>for page_num, page in enumerate(doc)\<close>. An exception of a page leaves the
  loop for the outer handler; the result is that exception, if any, and what has been
  done until then.
\<close>

fun page_loop :: "locals \<Rightarrow> nat \<Rightarrow> pdf_page list \<Rightarrow> extraction \<Rightarrow> exn option \<times> extraction" where
  "page_loop L page_num [] acc = (None, acc)"
| "page_loop L page_num (Inl e # rest) acc = (Some e, acc)"
| "page_loop L page_num (Inr image_list # rest) acc =
     page_loop L (page_num + 1) rest (image_loop L 0 image_list acc)"

text \<open>Lines 94 to 96: the outer handler prints the message and returns the empty list.\<close>

definition outer_handler :: "ustr \<Rightarrow> exn \<Rightarrow> extraction \<Rightarrow> extraction" where
  "outer_handler pdf_path e acc =
     acc\<lparr>returned := [], printed := printed acc @ [error_line pdf_path e]\<rparr>"

text \<open>Lines 32 to 46: the names taken from the file name.\<close>

definition locals_of :: "(nat \<Rightarrow> bool) \<Rightarrow> ustr \<Rightarrow> pdf_file \<Rightarrow> locals" where
  "locals_of nd output_dir pdf_path =
     (let nm = stem (name pdf_path); y = year_of nd nm
      in \<lparr>pdf_name = nm, year = y, page_info = page_info_of nd nm,
          year_dir = joinpath output_dir y\<rparr>)"

text \<open>Lines 49 to 98: the \<open>try\<close> statement with its handler, and the return.\<close>

definition try_block :: "(nat \<Rightarrow> bool) \<Rightarrow> ustr \<Rightarrow> pdf_file \<Rightarrow> extraction" where
  "try_block nd output_dir pdf_path =
     (let L = locals_of nd output_dir pdf_path;
          start = \<lparr>returned = [], written = [], printed = []\<rparr>
      in case opened pdf_path of
           Inl e \<Rightarrow> outer_handler (path_str pdf_path) e start
         | Inr doc \<Rightarrow>
             (case page_loop L 0 (pages doc) start of
                (Some e, acc) \<Rightarrow> outer_handler (path_str pdf_path) e acc
              | (None, acc) \<Rightarrow>
                  (case close_error doc of
                     Some e \<Rightarrow> outer_handler (path_str pdf_path) e acc
                   | None \<Rightarrow> acc)))"

text \<open>
  The function. \<open>year_dir.mkdir\<close> (line 47) stands before the \<open>try\<close>: its exception
  leaves the function (\<open>Inl\<close>).
\<close>

definition extract_images_from_pdf :: "(nat \<Rightarrow> bool) \<Rightarrow> ustr \<Rightarrow> pdf_file \<Rightarrow> exn + extraction" where
  "extract_images_from_pdf nd output_dir pdf_path =
     (case mkdir_error pdf_path of
        Some e \<Rightarrow> Inl e
      | None \<Rightarrow> Inr (try_block nd output_dir pdf_path))"

subsection \<open>The loop of main\<close>

record main_state =
  total_images :: nat
  results :: "image_entry list"
  disk :: "(ustr \<times> bytes) list"
  console :: "ustr list"

definition skip_line :: "ustr \<Rightarrow> ustr" where
  "skip_line pdf_path =
     [0x30B9, 0x30AD, 0x30C3, 0x30D7] @ asc '': '' @ pdf_path @ asc '' (''
       @ [0x30D5, 0x30A1, 0x30A4, 0x30EB, 0x304C, 0x898B, 0x3064, 0x304B, 0x308A, 0x307E, 0x305B, 0x3093]
       @ asc '')''"

definition processing_line :: "ustr \<Rightarrow> ustr" where
  "processing_line nm = [0x51E6, 0x7406, 0x4E2D] @ asc '': '' @ nm"

definition count_line :: "nat \<Rightarrow> ustr" where
  "count_line n =
     asc ''  '' @ [0x2192] @ asc '' '' @ str_nat n @ [0x679A, 0x306E, 0x753B, 0x50CF, 0x3092, 0x62BD, 0x51FA]"

definition none_line :: ustr where
  "none_line = asc ''  '' @ [0x2192] @ asc '' '' @ [0x753B, 0x50CF, 0x306A, 0x3057]"

text \<open>Lines 129 to 136: the state after a call that has returned.\<close>

definition after_call :: "extraction \<Rightarrow> main_state \<Rightarrow> main_state" where
  "after_call x st =
     (let st1 = st\<lparr>disk := disk st @ written x, console := console st @ printed x\<rparr>
      in if returned x \<noteq> []
         then st1\<lparr>total_images := total_images st1 + length (returned x),
                  results := results st1 @ returned x,
                  console := console st1 @ [count_line (length (returned x))]\<rparr>
         else st1\<lparr>console := console st1 @ [none_line]\<rparr>)"

text \<open>
  Lines 123 to 136. The loop has no handler of its own: an exception of
  \<open>pdf_file.exists()\<close> or one that leaves \<open>extract_images_from_pdf\<close> ends the script,
  and the files after it are not looked at. The result is that exception, if any, and the
  state reached.
\<close>

fun main_loop :: "(nat \<Rightarrow> bool) \<Rightarrow> ustr \<Rightarrow> pdf_file list \<Rightarrow> main_state \<Rightarrow> exn option \<times> main_state" where
  "main_loop nd output_dir [] st = (None, st)"
| "main_loop nd output_dir (pdf_file # rest) st =
     (case exists pdf_file of
        Inl e \<Rightarrow> (Some e, st)
      | Inr False \<Rightarrow>
          main_loop nd output_dir rest (st\<lparr>console := console st @ [skip_line (path_str pdf_file)]\<rparr>)
      | Inr True \<Rightarrow>
          let st1 = st\<lparr>console := console st @ [processing_line (name pdf_file)]\<rparr>
          in case extract_images_from_pdf nd output_dir pdf_file of
               Inl e \<Rightarrow> (Some e, st1)
             | Inr x \<Rightarrow> main_loop nd output_dir rest (after_call x st1))"

section \<open>Script 2: process\_files.py\<close>

subsection \<open>String operations\<close>

definition startswith :: "ustr \<Rightarrow> ustr \<Rightarrow> bool" where
  "startswith s p = (take (length p) s = p)"

definition endswith :: "ustr \<Rightarrow> ustr \<Rightarrow> bool" where
  "endswith s e = (length e \<le> length s \<and> drop (length s - length e) s = e)"

text \<open>
  What the script needs from outside its own text: whether the two optional libraries
  were imported (lines 14 to 22), the tables of the Unicode database for text beyond
  ASCII (lower case, white space), and the chat completion service. \<open>chat\<close> stands for
  lines 144 to 159: it is given the two fields that fill the prompt template, the file
  name and the content, and gives the exception raised or the \<open>message.content\<close> of the
  first choice, which the service may leave empty (\<open>None\<close>).
\<close>

record env =
  pypdf2_installed :: bool
  docx_installed :: bool
  lower_table :: "ustr \<Rightarrow> ustr"
  space_table :: "nat \<Rightarrow> bool"
  chat :: "ustr \<Rightarrow> ustr \<Rightarrow> exn + ustr option"

text \<open>\<open>str.lower\<close>: on an ASCII string the capital letters are moved to the small ones.\<close>

definition lower :: "env \<Rightarrow> ustr \<Rightarrow> ustr" where
  "lower E s =
     (if list_all (\<lambda>c. c < 128) s
      then map (\<lambda>c. if 65 \<le> c \<and> c \<le> 90 then c + 32 else c) s
      else lower_table E s)"

text \<open>\<open>str.isspace\<close> of a character, and \<open>str.strip\<close> without argument.\<close>

definition isspace :: "env \<Rightarrow> nat \<Rightarrow> bool" where
  "isspace E c =
     (if c < 128 then (9 \<le> c \<and> c \<le> 13) \<or> (28 \<le> c \<and> c \<le> 32) else space_table E c)"

definition strip :: "env \<Rightarrow> ustr \<Rightarrow> ustr" where
  "strip E s = rev (dropWhile (isspace E) (rev (dropWhile (isspace E) s)))"

subsection \<open>The files and what the readers find in them\<close>

text \<open>
  A file of a folder, with what each of the three readers finds in it: the texts of the
  pages of the PDF (empty where \<open>page.extract_text()\<close> gives nothing), the texts of the
  paragraphs of the DOCX, the text read as UTF-8; or the exception raised on the way.
\<close>

record doc_file = pure_path +
  pdf_pages :: "exn + ustr list"
  docx_paragraphs :: "exn + ustr list"
  txt_content :: "exn + ustr"

subsection \<open>Text extraction\<close>

definition omitted_marker :: ustr where
  "omitted_marker = [0xA] @ asc ''...['' @ [0x4EE5, 0x4E0B, 0x7701, 0x7565] @ asc '']...''"

definition no_pypdf2_msg :: ustr where
  "no_pypdf2_msg =
     asc ''[PyPDF2'' @ [0x304C, 0x30A4, 0x30F3, 0x30B9, 0x30C8, 0x30FC, 0x30EB, 0x3055, 0x308C, 0x3066,
       0x3044, 0x307E, 0x305B, 0x3093] @ asc '']''"

definition scanned_pdf_msg :: ustr where
  "scanned_pdf_msg =
     asc ''['' @ [0x30C6, 0x30AD, 0x30B9, 0x30C8, 0x62BD, 0x51FA, 0x4E0D, 0x53EF] @ asc '' - ''
       @ [0x30B9, 0x30AD, 0x30E3, 0x30F3] @ asc ''PDF'' @ [0x306E, 0x53EF, 0x80FD, 0x6027] @ asc '']''"

definition pdf_error_msg :: "exn \<Rightarrow> ustr" where
  "pdf_error_msg e =
     asc ''[PDF'' @ [0x8AAD, 0x307F, 0x53D6, 0x308A, 0x30A8, 0x30E9, 0x30FC] @ asc '': ''
       @ message e @ asc '']''"

definition no_docx_msg :: ustr where
  "no_docx_msg =
     asc ''[python-docx'' @ [0x304C, 0x30A4, 0x30F3, 0x30B9, 0x30C8, 0x30FC, 0x30EB, 0x3055, 0x308C,
       0x3066, 0x3044, 0x307E, 0x305B, 0x3093] @ asc '']''"

definition empty_docx_msg :: ustr where
  "empty_docx_msg =
     asc ''['' @ [0x30C6, 0x30AD, 0x30B9, 0x30C8, 0x304C, 0x7A7A, 0x3067, 0x3059] @ asc '']''"

definition docx_error_msg :: "exn \<Rightarrow> ustr" where
  "docx_error_msg e =
     asc ''[DOCX'' @ [0x8AAD, 0x307F, 0x53D6, 0x308A, 0x30A8, 0x30E9, 0x30FC] @ asc '': ''
       @ message e @ asc '']''"

definition doc_msg :: ustr where
  "doc_msg =
     asc ''[.doc'' @ [0x5F62, 0x5F0F, 0x306F, 0x975E, 0x5BFE, 0x5FDC] @ asc '' - .docx''
       @ [0x306B, 0x5909, 0x63DB, 0x304C, 0x5FC5, 0x8981] @ asc '']''"

definition txt_error_msg :: ustr where
  "txt_error_msg =
     asc ''['' @ [0x30C6, 0x30AD, 0x30B9, 0x30C8, 0x8AAD, 0x307F, 0x53D6, 0x308A, 0x30A8, 0x30E9, 0x30FC]
       @ asc '']''"

definition unsupported_msg :: "ustr \<Rightarrow> ustr" where
  "unsupported_msg sfx =
     asc ''['' @ [0x975E, 0x5BFE, 0x5FDC, 0x30D5, 0x30A1, 0x30A4, 0x30EB, 0x5F62, 0x5F0F] @ asc '': ''
       @ sfx @ asc '']''"

text \<open>Lines 87 and 88, and 103 and 104.\<close>

definition truncate_text :: "ustr \<Rightarrow> ustr" where
  "truncate_text full_text =
     (if length full_text > 15000 then take 15000 full_text @ omitted_marker else full_text)"

definition extract_text_from_pdf :: "env \<Rightarrow> doc_file \<Rightarrow> ustr" where
  "extract_text_from_pdf E file_path =
     (if \<not> pypdf2_installed E then no_pypdf2_msg
      else case pdf_pages file_path of
             Inl e \<Rightarrow> pdf_error_msg e
           | Inr page_texts \<Rightarrow>
               let text_parts = filter (\<lambda>page_text. page_text \<noteq> []) page_texts;
                   full_text = truncate_text (join [0xA] text_parts)
               in if strip E full_text \<noteq> [] then full_text else scanned_pdf_msg)"

definition extract_text_from_docx :: "env \<Rightarrow> doc_file \<Rightarrow> ustr" where
  "extract_text_from_docx E file_path =
     (if \<not> docx_installed E then no_docx_msg
      else case docx_paragraphs file_path of
             Inl e \<Rightarrow> docx_error_msg e
           | Inr paras \<Rightarrow>
               let text_parts = filter (\<lambda>t. strip E t \<noteq> []) paras;
                   full_text = truncate_text (join [0xA] text_parts)
               in if strip E full_text \<noteq> [] then full_text else empty_docx_msg)"

definition extract_text :: "env \<Rightarrow> doc_file \<Rightarrow> ustr" where
  "extract_text E file_path =
     (let sfx = lower E (suffix_of (name file_path))
      in if sfx = asc ''.pdf'' then extract_text_from_pdf E file_path
         else if sfx \<in> set [asc ''.docx''] then extract_text_from_docx E file_path
         else if sfx = asc ''.doc'' then doc_msg
         else if sfx = asc ''.txt'' then
           (case txt_content file_path of
              Inr text \<Rightarrow> take 15000 text
            | Inl e \<Rightarrow> txt_error_msg)
         else unsupported_msg sfx)"

subsection \<open>process\_file\<close>

definition error_section :: "ustr \<Rightarrow> ustr \<Rightarrow> ustr" where
  "error_section nm content =
     [0xA] @ asc ''---'' @ [0xA, 0xA] @ asc ''## '' @ nm
       @ [0xA, 0xA] @ asc ''**'' @ [0x30A8, 0x30E9, 0x30FC] @ asc ''**: '' @ content
       @ [0xA, 0xA] @ asc ''---'' @ [0xA]"

definition api_error_section :: "ustr \<Rightarrow> exn \<Rightarrow> ustr" where
  "api_error_section nm e =
     [0xA] @ asc ''---'' @ [0xA, 0xA] @ asc ''## '' @ nm
       @ [0xA, 0xA] @ asc ''**API'' @ [0x30A8, 0x30E9, 0x30FC] @ asc ''**: '' @ message e
       @ [0xA, 0xA] @ asc ''---'' @ [0xA]"

text \<open>
  The result is the value returned and the calls made to the service, each with the two
  fields sent. The value is a text, or \<open>None\<close> when the service has left the content of
  its reply empty: line 165 returns what line 159 has read.
\<close>

definition process_file :: "env \<Rightarrow> doc_file \<Rightarrow> ustr option \<times> (ustr \<times> ustr) list" where
  "process_file E file_path =
     (let content = extract_text E file_path
      in if startswith content (asc ''['') \<and> endswith content (asc '']'')
         then (Some (error_section (name file_path) content), [])
         else (case chat E (name file_path) content of
                 Inr result \<Rightarrow> (result, [(name file_path, content)])
               | Inl e \<Rightarrow>
                   (Some (api_error_section (name file_path) e), [(name file_path, content)])))"

subsection \<open>process\_folder\<close>

text \<open>A folder that exists: its name and its entries, in the order the system lists them.\<close>

record folder =
  folder_name :: ustr
  entries :: "doc_file list"

text \<open>The report file (a file that is not there reads as the empty text: both modes of
  opening create it) and the calls made to the service.\<close>

record run =
  report :: ustr
  api_calls :: "(ustr \<times> ustr) list"

text \<open>\<open>folder.glob\<close> of a pattern \<open>*ext\<close>: the entries whose name ends with \<open>ext\<close>.\<close>

definition glob :: "folder \<Rightarrow> ustr \<Rightarrow> doc_file list" where
  "glob fo e = filter (\<lambda>f. endswith (name f) e) (entries fo)"

text \<open>Lines 181 to 185.\<close>

definition folder_files :: "folder \<Rightarrow> doc_file list" where
  "folder_files fo =
     sort_key name (concat (map (glob fo) [asc ''.pdf'', asc ''.docx'', asc ''.doc'', asc ''.txt'']))"

text \<open>Lines 204 to 206.\<close>

definition folder_header :: "ustr \<Rightarrow> ustr" where
  "folder_header nm =
     [0xA, 0xA] @ replicate 60 61 @ [0xA] @ asc ''# '' @ nm @ [0xA] @ replicate 60 61 @ [0xA, 0xA]"

text \<open>
  \<open>sep.join(results)\<close> on a list that may hold \<open>None\<close>: the TypeError that names the
  first item that is no text, or the texts joined.
\<close>

fun first_none :: "nat \<Rightarrow> 'a option list \<Rightarrow> nat option" where
  "first_none i [] = None"
| "first_none i (None # rs) = Some i"
| "first_none i (Some r # rs) = first_none (i + 1) rs"

definition type_error :: "nat \<Rightarrow> exn" where
  "type_error i =
     Exception (asc ''sequence item '' @ str_nat i @ asc '': expected str instance, NoneType found'')"

definition py_join :: "ustr \<Rightarrow> ustr option list \<Rightarrow> exn + ustr" where
  "py_join sep rs =
     (case first_none 0 rs of
        Some i \<Rightarrow> Inl (type_error i)
      | None \<Rightarrow> Inr (join sep (List.map_filter (\<lambda>r. r) rs)))"

text \<open>
  The first argument is what \<open>folder.exists()\<close> gives (line 176): an exception, or
  \<open>None\<close> when the path does not exist, or the folder. The result is the exception that
  leaves the function, if any, and the state reached. The three writes of the header
  (lines 204 to 206) come before the argument of the fourth is computed: when the join
  raises, the header is in the report and the sections are not.
\<close>

definition process_folder :: "env \<Rightarrow> exn + folder option \<Rightarrow> run \<Rightarrow> exn option \<times> run" where
  "process_folder E folder_path st =
     (case folder_path of
        Inl e \<Rightarrow> (Some e, st)
      | Inr None \<Rightarrow> (None, st)
      | Inr (Some fo) \<Rightarrow>
          let files = folder_files fo
          in if files = [] then (None, st)
             else
               let outs = map (process_file E) files;
                   rs = map fst outs;
                   st1 = st\<lparr>api_calls := api_calls st @ concat (map snd outs)\<rparr>;
                   st2 = st1\<lparr>report := report st1 @ folder_header (folder_name fo)\<rparr>
               in case py_join [0xA] rs of
                    Inl e \<Rightarrow> (Some e, st2)
                  | Inr sections \<Rightarrow> (None, st2\<lparr>report := report st2 @ sections\<rparr>))"

subsection \<open>main\<close>

text \<open>Lines 222 to 225: the file is opened with mode \<open>w\<close>. \<open>now\<close> is the time stamp.\<close>

definition report_head :: "ustr \<Rightarrow> ustr" where
  "report_head now =
     asc ''# '' @ [0x8CC7, 0x6599, 0x307E, 0x3068, 0x3081, 0xFF08] @ asc ''API''
       @ [0x51E6, 0x7406, 0x7D50, 0x679C, 0xFF09, 0xA, 0xA]
       @ asc ''OpenAI GPT-4o-mini '' @ [0x306B, 0x3088, 0x308B, 0x81EA, 0x52D5, 0x51E6, 0x7406, 0x7D50, 0x679C, 0xA]
       @ [0x51E6, 0x7406, 0x65E5, 0x6642] @ asc '': '' @ now @ [0xA, 0xA]"

text \<open>Lines 228 to 239.\<close>

definition default_folders :: "ustr list" where
  "default_folders =
     [asc ''1_'' @ [0x5B66, 0x4F1A, 0x767A, 0x8868, 0x8AD6, 0x6587],
      asc ''2_'' @ [0x4F53, 0x9A13, 0x8AC7, 0x63A8, 0x85A6, 0x6587],
      asc ''3_'' @ [0x89E3, 0x8AAC, 0x539F, 0x7A3F],
      asc ''4_'' @ [0x5354, 0x4F1A, 0x8A8C, 0x8A73, 0x7D30],
      asc ''5_'' @ [0x30B9, 0x30BF, 0x30FC, 0x30E9, 0x30A4, 0x30C8, 0x30D2, 0x30FC, 0x30EA, 0x30F3, 0x30B0],
      asc ''6_CD_'' @ [0x66F8, 0x7C4D, 0x95A2, 0x9023],
      asc ''7_'' @ [0x30E1, 0x30C7, 0x30A3, 0x30A2, 0x63B2, 0x8F09],
      asc ''8_'' @ [0x4F53, 0x611F, 0x97F3, 0x97FF],
      asc ''9_'' @ [0x81EA, 0x7136, 0x97F3, 0x30A8, 0x30D3, 0x30C7, 0x30F3, 0x30B9],
      asc ''10_'' @ [0x305D, 0x306E, 0x4ED6]]"

text \<open>Lines 242 and 243: \<open>argv\<close> is \<open>sys.argv\<close>, the name of the script first.\<close>

definition chosen_folders :: "ustr list \<Rightarrow> ustr list" where
  "chosen_folders argv = (if length argv > 1 then tl argv else default_folders)"

text \<open>
  What a run of main leaves: the report and the calls to the service, the folder names
  given to \<open>process_folder\<close> and those skipped with a line on the console, each list in
  the order of the loop.
\<close>

record main_run = run +
  processed :: "ustr list"
  skipped :: "ustr list"

text \<open>
  Lines 246 to 251. \<open>dir\<close> gives what \<open>exists()\<close> finds at \<open>process_dir / folder_name\<close>:
  an exception, nothing, or the folder. The loop has no handler: an exception of
  \<open>exists()\<close> or one that leaves \<open>process_folder\<close> ends the script, and the folders after
  it are not looked at. The result is that exception, if any, and the state reached.
\<close>

fun folder_loop ::
  "env \<Rightarrow> (ustr \<Rightarrow> exn + folder option) \<Rightarrow> ustr list \<Rightarrow> main_run \<Rightarrow> exn option \<times> main_run" where
  "folder_loop E dir [] st = (None, st)"
| "folder_loop E dir (nm # rest) st =
     (case dir nm of
        Inl e \<Rightarrow> (Some e, st)
      | Inr None \<Rightarrow> folder_loop E dir rest (st\<lparr>skipped := skipped st @ [nm]\<rparr>)
      | Inr (Some fo) \<Rightarrow>
          (case process_folder E (Inr (Some fo)) (run.truncate st) of
             (Some e, r) \<Rightarrow>
               (Some e, st\<lparr>report := report r, api_calls := api_calls r,
                           processed := processed st @ [nm]\<rparr>)
           | (None, r) \<Rightarrow>
               folder_loop E dir rest
                 (st\<lparr>report := report r, api_calls := api_calls r,
                     processed := processed st @ [nm]\<rparr>)))"

text \<open>main, started on a report file that holds \<open>old\<close>.\<close>

definition main ::
  "env \<Rightarrow> ustr \<Rightarrow> (ustr \<Rightarrow> exn + folder option) \<Rightarrow> ustr list \<Rightarrow> ustr \<Rightarrow> exn option \<times> main_run" where
  "main E now dir argv old =
     (let opened_w = (\<lambda>old_text. report_head now)
      in folder_loop E dir (chosen_folders argv)
           \<lparr>report = opened_w old, api_calls = [], processed = [], skipped = []\<rparr>)"

section \<open>Notions used to state the properties\<close>

subsection \<open>Tokens of a file name\<close>

text \<open>A year: four characters, \<open>20\<close> or \<open>19\<close> and two digits.\<close>

definition year_shape :: "(nat \<Rightarrow> bool) \<Rightarrow> ustr \<Rightarrow> bool" where
  "year_shape nd y =
     (case y of
        [a, b, c, d] \<Rightarrow> (a = 50 \<and> b = 48 \<or> a = 49 \<and> b = 57) \<and> re_digit nd c \<and> re_digit nd d
      | _ \<Rightarrow> False)"

text \<open>A number: one digit or more.\<close>

definition number :: "(nat \<Rightarrow> bool) \<Rightarrow> ustr \<Rightarrow> bool" where
  "number nd ds = (ds \<noteq> [] \<and> list_all (re_digit nd) ds)"

text \<open>
  The spellings of a page token with the numbers \<open>N\<close> and \<open>M\<close>: \<open>p\<close> or \<open>P\<close>, \<open>N\<close>,
  \<open>-\<close> or \<open>_\<close>, nothing or \<open>p\<close> or \<open>P\<close>, \<open>M\<close>.
\<close>

definition page_tokens :: "ustr \<Rightarrow> ustr \<Rightarrow> ustr list" where
  "page_tokens N M =
     [p # N @ sep # opt @ M. p \<leftarrow> [112, 80], sep \<leftarrow> [45, 95], opt \<leftarrow> [[], [112], [80]]]"

text \<open>A year, or a page token, begins at the head of the string.\<close>

definition year_here :: "(nat \<Rightarrow> bool) \<Rightarrow> ustr \<Rightarrow> bool" where
  "year_here nd s = year_shape nd (take 4 s)"

definition token_here :: "(nat \<Rightarrow> bool) \<Rightarrow> ustr \<Rightarrow> bool" where
  "token_here nd s =
     (\<exists>N M. number nd N \<and> number nd M \<and> (\<exists>t\<in>set (page_tokens N M). prefix t s))"

subsection \<open>Images of a document\<close>

definition page_ok :: "pdf_page \<Rightarrow> bool" where
  "page_ok p = (case p of Inl e \<Rightarrow> False | Inr imgs \<Rightarrow> True)"

text \<open>
  The images the loops come to, each with the number of its page and its index within
  the page: those of the pages before the first page that raises.
\<close>

definition page_images :: "nat \<times> pdf_page \<Rightarrow> (nat \<times> nat \<times> pdf_image) list" where
  "page_images np =
     (case snd np of
        Inl e \<Rightarrow> []
      | Inr imgs \<Rightarrow> map (\<lambda>(i, img). (fst np, i, img)) (enumerate 0 imgs))"

definition visited :: "pdf_doc \<Rightarrow> (nat \<times> nat \<times> pdf_image) list" where
  "visited doc = concat (map page_images (enumerate 0 (takeWhile page_ok (pages doc))))"

text \<open>No step at the level of the document raises: every page loads and \<open>close\<close> returns.\<close>

definition doc_ok :: "pdf_doc \<Rightarrow> bool" where
  "doc_ok doc = (list_all page_ok (pages doc) \<and> close_error doc = None)"

text \<open>
  The data of an image that extracts without error, is 50 pixels or more wide and 50 or
  more high, and is saved without error.
\<close>

definition accepted :: "pdf_image \<Rightarrow> base_image option" where
  "accepted img =
     (case extract_image img of
        Inl e \<Rightarrow> None
      | Inr b \<Rightarrow> if 50 \<le> width b \<and> 50 \<le> height b \<and> save_error img = None then Some b else None)"

text \<open>The file written for an image at index \<open>i\<close> of its page, and its entry in the list.\<close>

definition saved_as :: "locals \<Rightarrow> nat \<Rightarrow> base_image \<Rightarrow> ustr \<times> bytes" where
  "saved_as L i b =
     (joinpath (year_dir L) (img_filename (year L) (page_info L) i (image_ext b)), image_bytes b)"

definition listed_as :: "locals \<Rightarrow> nat \<Rightarrow> base_image \<Rightarrow> image_entry" where
  "listed_as L i b =
     \<lparr>filename = img_filename (year L) (page_info L) i (image_ext b),
      path = joinpath (year_dir L) (img_filename (year L) (page_info L) i (image_ext b)),
      source_pdf = pdf_name L, entry_width = width b, entry_height = height b,
      size_kb = of_nat (length (image_bytes b)) / 1024\<rparr>"

definition written_for :: "locals \<Rightarrow> nat \<times> nat \<times> pdf_image \<Rightarrow> (ustr \<times> bytes) option" where
  "written_for L v = (case v of (page_num, i, img) \<Rightarrow> map_option (saved_as L i) (accepted img))"

definition listed_for :: "locals \<Rightarrow> nat \<times> nat \<times> pdf_image \<Rightarrow> image_entry option" where
  "listed_for L v = (case v of (page_num, i, img) \<Rightarrow> map_option (listed_as L i) (accepted img))"

text \<open>The exception that reaches the outer handler, if any.\<close>

definition doc_failure :: "pdf_file \<Rightarrow> exn option" where
  "doc_failure f =
     (case opened f of
        Inl e \<Rightarrow> Some e
      | Inr doc \<Rightarrow>
          (case dropWhile page_ok (pages doc) of
             Inl e # _ \<Rightarrow> Some e
           | _ \<Rightarrow> close_error doc))"

subsection \<open>Files of a folder\<close>

definition has_ext :: "ustr \<Rightarrow> bool" where
  "has_ext nm =
     (endswith nm (asc ''.pdf'') \<or> endswith nm (asc ''.docx'') \<or> endswith nm (asc ''.doc'')
      \<or> endswith nm (asc ''.txt''))"

text \<open>What \<open>exists()\<close> finds under a folder name: a folder, or nothing.\<close>

definition folder_there :: "(ustr \<Rightarrow> exn + folder option) \<Rightarrow> ustr \<Rightarrow> bool" where
  "folder_there dir nm = (case dir nm of Inr (Some fo) \<Rightarrow> True | _ \<Rightarrow> False)"

definition folder_missing :: "(ustr \<Rightarrow> exn + folder option) \<Rightarrow> ustr \<Rightarrow> bool" where
  "folder_missing dir nm = (dir nm = Inr None)"

text \<open>A text that \<open>process_file\<close> takes for an error message.\<close>

definition bracketed :: "ustr \<Rightarrow> bool" where
  "bracketed content = (startswith content (asc ''['') \<and> endswith content (asc '']''))"

section \<open>Properties\<close>

subsection \<open>Searching with a pattern\<close>

lemma re_search_None: "re_search m s = None \<longleftrightarrow> (\<forall>n\<le>length s. m (drop n s) = None)"
proof (induction s)
  case Nil
  then show ?case by simp
next
  case (Cons c cs)
  have "(\<forall>n<Suc (Suc (length cs)). m (drop n (c # cs)) = None)
        \<longleftrightarrow> m (c # cs) = None \<and> (\<forall>n<Suc (length cs). m (drop n cs) = None)"
    by (subst All_less_Suc2) simp
  then have "(\<forall>n\<le>length (c # cs). m (drop n (c # cs)) = None)
        \<longleftrightarrow> m (c # cs) = None \<and> (\<forall>n\<le>length cs. m (drop n cs) = None)"
    by (simp only: less_Suc_eq_le list.size(4) One_nat_def add_Suc_right add_0_right)
  with Cons show ?case by (auto split: option.splits)
qed

lemma re_search_first:
  "\<forall>n<length pre. m (drop n (pre @ s)) = None \<Longrightarrow> m s = Some g \<Longrightarrow> re_search m (pre @ s) = Some g"
proof (induction pre)
  case Nil
  then show ?case by (cases s) auto
next
  case (Cons c pre)
  from Cons.prems(1) have h0: "m (c # pre @ s) = None" by force
  from Cons.prems(1) have "\<forall>n<length pre. m (drop n (pre @ s)) = None"
    by (metis Suc_less_eq append_Cons drop_Suc_Cons length_Cons)
  with Cons have "re_search m (pre @ s) = Some g" by blast
  with h0 show ?case by simp
qed

lemma year_at_shape: "year_shape nd y \<Longrightarrow> year_at nd (y @ post) = Some y"
  by (auto simp: year_shape_def split: list.splits)

lemma year_at_Some: "year_at nd s = Some y \<Longrightarrow> year_shape nd y \<and> prefix y s"
  by (cases "(nd, s)" rule: year_at.cases) (auto simp: year_shape_def split: if_splits)

lemma digit_not_p: "re_digit nd c \<Longrightarrow> \<not> is_p c"
  by (auto simp: re_digit_def is_p_def)

lemma sep_not_digit: "is_sep c \<Longrightarrow> \<not> re_digit nd c"
  by (auto simp: re_digit_def is_sep_def)

lemma digits_then_run:
  "list_all (re_digit nd) N \<Longrightarrow> rest = [] \<or> \<not> re_digit nd (hd rest) \<Longrightarrow> acc @ N \<noteq> [] \<Longrightarrow>
   k (acc @ N) rest = Some r \<Longrightarrow> digits_then nd k acc (N @ rest) = Some r"
proof (induction N arbitrary: acc)
  case Nil
  then show ?case by (cases rest) auto
next
  case (Cons n N)
  from Cons.prems have "digits_then nd k (acc @ [n]) (N @ rest) = Some r"
    by (intro Cons.IH) auto
  with Cons.prems show ?case by simp
qed

lemma page_at_token:
  assumes t: "t \<in> set (page_tokens N M)" and N: "number nd N" and M: "number nd M"
    and post: "post = [] \<or> \<not> re_digit nd (hd post)"
  shows "page_at nd (t @ post) = Some (N, M)"
proof -
  from t obtain p sep opt where t_eq: "t = p # N @ sep # opt @ M"
    and p: "is_p p" and sep: "is_sep sep" and opt: "opt = [] \<or> opt = [112] \<or> opt = [80]"
    by (auto simp: page_tokens_def is_p_def is_sep_def)
  let ?k2 = "digits_then nd (\<lambda>g2 _. Some (N, g2)) []"
  from M obtain m M' where M_eq: "M = m # M'" and m: "re_digit nd m"
    by (cases M) (auto simp: number_def)
  have g2: "?k2 (M @ post) = Some (N, M)"
    using M post by (intro digits_then_run) (auto simp: number_def)
  have "optional_p ?k2 (opt @ M @ post) = Some (N, M)"
    using opt g2 m digit_not_p[OF m] by (auto simp: optional_p_def M_eq is_p_def)
  then have "digits_then nd
              (\<lambda>g1 r1. case r1 of [] \<Rightarrow> None
                 | sep # r2 \<Rightarrow> if is_sep sep
                     then optional_p (digits_then nd (\<lambda>g2 _. Some (g1, g2)) []) r2 else None)
              [] (N @ sep # opt @ M @ post) = Some (N, M)"
    using N sep sep_not_digit[OF sep, of nd] by (intro digits_then_run) (auto simp: number_def)
  with p show ?thesis by (simp add: page_at_def t_eq)
qed

lemma year_at_None_iff: "year_at nd s = None \<longleftrightarrow> \<not> year_here nd s"
  by (cases "(nd, s)" rule: year_at.cases) (auto simp: year_here_def year_shape_def)

lemma digits_then_Some:
  "digits_then nd k acc s = Some r \<Longrightarrow>
   \<exists>ds rest. s = ds @ rest \<and> list_all (re_digit nd) ds \<and> acc @ ds \<noteq> [] \<and> k (acc @ ds) rest = Some r"
proof (induction s arbitrary: acc)
  case Nil
  then show ?case by (auto split: if_splits)
next
  case (Cons c cs)
  show ?case
  proof (cases "re_digit nd c \<and> digits_then nd k (acc @ [c]) cs \<noteq> None")
    case True
    with Cons.prems have "digits_then nd k (acc @ [c]) cs = Some r" by auto
    from Cons.IH[OF this] obtain ds rest where
      "cs = ds @ rest" "list_all (re_digit nd) ds" "k ((acc @ [c]) @ ds) rest = Some r"
      by blast
    with True have "c # cs = (c # ds) @ rest \<and> list_all (re_digit nd) (c # ds)
        \<and> acc @ (c # ds) \<noteq> [] \<and> k (acc @ (c # ds)) rest = Some r"
      by simp
    then show ?thesis by blast
  next
    case False
    with Cons.prems have "acc \<noteq> [] \<and> k acc (c # cs) = Some r"
      by (auto split: if_splits option.splits)
    then have "c # cs = [] @ (c # cs) \<and> list_all (re_digit nd) [] \<and> acc @ [] \<noteq> []
        \<and> k (acc @ []) (c # cs) = Some r"
      by simp
    then show ?thesis by blast
  qed
qed

lemma digits_then_Some0:
  "digits_then nd k [] s = Some r \<Longrightarrow>
   \<exists>ds rest. s = ds @ rest \<and> list_all (re_digit nd) ds \<and> ds \<noteq> [] \<and> k ds rest = Some r"
  using digits_then_Some[of nd k "[]" s r] by simp

lemma page_at_Some:
  assumes "page_at nd s = Some (N, M)"
  shows "number nd N \<and> number nd M \<and> (\<exists>t\<in>set (page_tokens N M). prefix t s)"
proof -
  define k2 where "k2 = (\<lambda>g1 g2 (r :: ustr). Some (g1 :: ustr, g2 :: ustr))"
  define k1 where "k1 = (\<lambda>g1 r1. case r1 of [] \<Rightarrow> None
                 | sep # r2 \<Rightarrow> if is_sep sep
                     then optional_p (digits_then nd (k2 g1) []) r2 else None)"
  have "page_at nd s = (case s of [] \<Rightarrow> None
          | p # r \<Rightarrow> if is_p p then digits_then nd k1 [] r else None)"
    unfolding page_at_def k1_def k2_def by (rule refl)
  with assms obtain p r where s: "s = p # r" and p: "is_p p"
    and d1: "digits_then nd k1 [] r = Some (N, M)"
    by (cases s) (auto split: if_splits)
  from digits_then_Some0[OF d1] obtain g1 r1 where r: "r = g1 @ r1"
    and g1: "list_all (re_digit nd) g1" "g1 \<noteq> []" and k1: "k1 g1 r1 = Some (N, M)"
    by blast
  from k1 obtain sep r2 where r1: "r1 = sep # r2" and sep: "is_sep sep"
    and o: "optional_p (digits_then nd (k2 g1) []) r2 = Some (N, M)"
    by (cases r1) (auto simp: k1_def split: if_splits)
  have "\<exists>opt r3. r2 = opt @ r3 \<and> (opt = [] \<or> opt = [112] \<or> opt = [80])
          \<and> digits_then nd (k2 g1) [] r3 = Some (N, M)"
  proof (cases r2)
    case Nil
    with o show ?thesis by (simp add: optional_p_def)
  next
    case (Cons c cs)
    show ?thesis
    proof (cases "is_p c \<and> digits_then nd (k2 g1) [] cs \<noteq> None")
      case True
      with o Cons have "digits_then nd (k2 g1) [] cs = Some (N, M)"
        by (auto simp: optional_p_def)
      moreover have "r2 = [c] @ cs \<and> ([c] = [] \<or> [c] = [112] \<or> [c] = [80])"
        using True Cons by (auto simp: is_p_def)
      ultimately show ?thesis by blast
    next
      case False
      with o Cons have "digits_then nd (k2 g1) [] r2 = Some (N, M)"
        by (auto simp: optional_p_def split: if_splits option.splits)
      then have "r2 = [] @ r2 \<and> digits_then nd (k2 g1) [] r2 = Some (N, M)" by simp
      then show ?thesis by blast
    qed
  qed
  then obtain opt r3 where r2: "r2 = opt @ r3" and opt: "opt = [] \<or> opt = [112] \<or> opt = [80]"
    and d2: "digits_then nd (k2 g1) [] r3 = Some (N, M)"
    by blast
  from digits_then_Some0[OF d2] obtain g2 rest where r3: "r3 = g2 @ rest"
    and g2: "list_all (re_digit nd) g2" "g2 \<noteq> []" and k: "k2 g1 g2 rest = Some (N, M)"
    by blast
  from k have eq: "g1 = N" "g2 = M" by (simp_all add: k2_def)
  have "p # N @ sep # opt @ M \<in> set (page_tokens N M)"
    using p sep opt by (auto simp: page_tokens_def is_p_def is_sep_def)
  moreover have "prefix (p # N @ sep # opt @ M) s"
    by (simp add: s r r1 r2 r3 eq)
  ultimately show ?thesis using g1 g2 eq by (auto simp: number_def)
qed

lemma token_here_page_at:
  assumes "token_here nd s"
  shows "page_at nd s \<noteq> None"
proof -
  from assms obtain N M t post where N: "number nd N" and M: "number nd M"
    and t: "t \<in> set (page_tokens N M)" and s: "s = t @ post"
    by (auto simp: token_here_def prefix_def)
  let ?more = "takeWhile (re_digit nd) post"
  let ?rest = "dropWhile (re_digit nd) post"
  from t obtain t0 where t_eq: "t = t0 @ M" and t': "t0 @ (M @ ?more) \<in> set (page_tokens N (M @ ?more))"
    by (auto simp: page_tokens_def)
  have M': "number nd (M @ ?more)"
    using M by (auto simp: number_def list_all_iff dest: set_takeWhileD)
  have rest: "?rest = [] \<or> \<not> re_digit nd (hd ?rest)"
    by (metis hd_dropWhile)
  have "page_at nd ((t0 @ (M @ ?more)) @ ?rest) = Some (N, M @ ?more)"
    by (rule page_at_token[OF t' N M' rest])
  moreover have "(t0 @ (M @ ?more)) @ ?rest = s"
    by (simp add: s t_eq)
  ultimately show ?thesis by simp
qed

lemma page_at_None_iff: "page_at nd s = None \<longleftrightarrow> \<not> token_here nd s"
proof
  assume "page_at nd s = None"
  with token_here_page_at show "\<not> token_here nd s" by blast
next
  assume n: "\<not> token_here nd s"
  show "page_at nd s = None"
  proof (rule ccontr)
    assume "page_at nd s \<noteq> None"
    then obtain N M where "page_at nd s = Some (N, M)" by auto
    from page_at_Some[OF this] n show False by (auto simp: token_here_def)
  qed
qed

lemma str_nat_length: "0 < length (str_nat n)"
  by (subst str_nat.simps) simp

lemma fmt_02d_eq: "fmt_02d n = (if n < 10 then [48, 48 + n] else str_nat n)"
proof (cases "n < 10")
  case True
  then have "str_nat n = [48 + n]" by (subst str_nat.simps) simp
  with True show ?thesis by (simp add: fmt_02d_def)
next
  case False
  then have "str_nat n = str_nat (n div 10) @ [48 + n mod 10]" by (subst str_nat.simps) simp
  then have "length (str_nat n) = length (str_nat (n div 10)) + 1" by simp
  with str_nat_length[of "n div 10"] have "2 \<le> length (str_nat n)" by linarith
  with False show ?thesis by (simp add: fmt_02d_def)
qed

lemma year_found:
  assumes "nm = pre @ y @ post" and "year_shape nd y"
    and "\<forall>n<length pre. \<not> year_here nd (drop n nm)"
  shows "year_of nd nm = y"
proof -
  have "re_search (year_at nd) (pre @ (y @ post)) = Some y"
    using assms by (intro re_search_first) (auto simp: year_at_None_iff year_at_shape)
  with assms(1) show ?thesis by (simp add: year_of_def)
qed

lemma page_found:
  assumes "nm = pre @ t @ post" and "number nd N" and "number nd M"
    and "t \<in> set (page_tokens N M)" and "post = [] \<or> \<not> re_digit nd (hd post)"
    and "\<forall>n<length pre. \<not> token_here nd (drop n nm)"
  shows "page_info_of nd nm = asc ''p'' @ N @ asc ''-p'' @ M"
proof -
  have "re_search (page_at nd) (pre @ (t @ post)) = Some (N, M)"
    using assms by (intro re_search_first) (auto simp: page_at_None_iff page_at_token)
  with assms(1) show ?thesis by (simp add: page_info_of_def)
qed

lemma year_default:
  assumes "\<forall>n. \<not> year_here nd (drop n nm)"
  shows "year_of nd nm = asc ''unknown''"
proof -
  have "re_search (year_at nd) nm = None"
    using assms by (simp add: re_search_None year_at_None_iff)
  then show ?thesis by (simp add: year_of_def)
qed

lemma page_default:
  assumes "\<forall>n. \<not> token_here nd (drop n nm)"
  shows "page_info_of nd nm = asc ''full''"
proof -
  have "re_search (page_at nd) nm = None"
    using assms by (simp add: re_search_None page_at_None_iff)
  then show ?thesis by (simp add: page_info_of_def)
qed

lemma re_search_None_all: "re_search m s = None \<longleftrightarrow> (\<forall>n. m (drop n s) = None)"
proof
  assume "re_search m s = None"
  then have le: "\<forall>n\<le>length s. m (drop n s) = None" by (simp add: re_search_None)
  show "\<forall>n. m (drop n s) = None"
  proof
    fix n
    show "m (drop n s) = None"
    proof (cases "n \<le> length s")
      case True
      with le show ?thesis by blast
    next
      case False
      then have "drop n s = drop (length s) s" by simp
      with le show ?thesis by (metis order_refl)
    qed
  qed
next
  assume "\<forall>n. m (drop n s) = None"
  then show "re_search m s = None" by (simp add: re_search_None)
qed

lemma no_year_iff: "(\<forall>n. \<not> year_here nd (drop n nm)) \<longleftrightarrow> re_search (year_at nd) nm = None"
  by (simp add: re_search_None_all year_at_None_iff)

lemma no_token_iff: "(\<forall>n. \<not> token_here nd (drop n nm)) \<longleftrightarrow> re_search (page_at nd) nm = None"
  by (simp add: re_search_None_all page_at_None_iff)

subsection \<open>The loops of extract\_images\_from\_pdf\<close>

lemma written_visit:
  "written (visit_image L i img acc) =
     written acc @ (case accepted img of None \<Rightarrow> [] | Some b \<Rightarrow> [saved_as L i b])"
  by (cases "extract_image img"; cases "save_error img")
     (auto simp add: visit_image_def accepted_def saved_as_def Let_def)

lemma returned_visit:
  "returned (visit_image L i img acc) =
     returned acc @ (case accepted img of None \<Rightarrow> [] | Some b \<Rightarrow> [listed_as L i b])"
  by (cases "extract_image img"; cases "save_error img")
     (auto simp add: visit_image_def accepted_def listed_as_def Let_def)

lemma written_image_loop:
  "written (image_loop L i imgs acc) =
     written acc @ List.map_filter (\<lambda>(k, img). map_option (saved_as L k) (accepted img)) (enumerate i imgs)"
proof (induction imgs arbitrary: i acc)
  case Nil
  then show ?case by (simp add: List.map_filter_simps)
next
  case (Cons img imgs)
  show ?case
    by (simp add: Cons.IH written_visit List.map_filter_simps split: option.splits)
qed

lemma returned_image_loop:
  "returned (image_loop L i imgs acc) =
     returned acc @ List.map_filter (\<lambda>(k, img). map_option (listed_as L k) (accepted img)) (enumerate i imgs)"
proof (induction imgs arbitrary: i acc)
  case Nil
  then show ?case by (simp add: List.map_filter_simps)
next
  case (Cons img imgs)
  show ?case
    by (simp add: Cons.IH returned_visit List.map_filter_simps split: option.splits)
qed

lemma map_filter_append: "List.map_filter f (xs @ ys) = List.map_filter f xs @ List.map_filter f ys"
  by (simp add: List.map_filter_def)

lemma map_filter_map: "List.map_filter f (map g xs) = List.map_filter (f \<circ> g) xs"
  by (simp add: List.map_filter_def filter_map comp_def)

lemma written_page_images:
  "List.map_filter (written_for L) (page_images (n, Inr imgs)) =
     List.map_filter (\<lambda>(k, img). map_option (saved_as L k) (accepted img)) (enumerate 0 imgs)"
  by (simp add: page_images_def map_filter_map comp_def written_for_def case_prod_unfold)

lemma listed_page_images:
  "List.map_filter (listed_for L) (page_images (n, Inr imgs)) =
     List.map_filter (\<lambda>(k, img). map_option (listed_as L k) (accepted img)) (enumerate 0 imgs)"
  by (simp add: page_images_def map_filter_map comp_def listed_for_def case_prod_unfold)

lemma written_page_loop:
  "written (snd (page_loop L n ps acc)) =
     written acc @ List.map_filter (written_for L)
       (concat (map page_images (enumerate n (takeWhile page_ok ps))))"
proof (induction L n ps acc rule: page_loop.induct)
  case (1 L n acc)
  then show ?case by (simp add: List.map_filter_simps)
next
  case (2 L n e rest acc)
  then show ?case by (simp add: page_ok_def List.map_filter_simps)
next
  case (3 L n imgs rest acc)
  then show ?case
    by (simp add: page_ok_def map_filter_append written_page_images written_image_loop)
qed

lemma returned_page_loop:
  "returned (snd (page_loop L n ps acc)) =
     returned acc @ List.map_filter (listed_for L)
       (concat (map page_images (enumerate n (takeWhile page_ok ps))))"
proof (induction L n ps acc rule: page_loop.induct)
  case (1 L n acc)
  then show ?case by (simp add: List.map_filter_simps)
next
  case (2 L n e rest acc)
  then show ?case by (simp add: page_ok_def List.map_filter_simps)
next
  case (3 L n imgs rest acc)
  then show ?case
    by (simp add: page_ok_def map_filter_append listed_page_images returned_image_loop)
qed

lemma fst_page_loop:
  "fst (page_loop L n ps acc) =
     (case dropWhile page_ok ps of Inl e # _ \<Rightarrow> Some e | _ \<Rightarrow> None)"
  by (induction L n ps acc rule: page_loop.induct) (simp_all add: page_ok_def)

lemma page_loop_None_iff: "fst (page_loop L n ps acc) = None \<longleftrightarrow> list_all page_ok ps"
  by (induction L n ps acc rule: page_loop.induct) (simp_all add: page_ok_def)

lemma page_loop_page_num: "page_loop L n ps acc = page_loop L n' ps acc"
proof (induction ps arbitrary: n n' acc)
  case Nil
  then show ?case by simp
next
  case (Cons p ps)
  then show ?case by (cases p) auto
qed

lemma written_try_block:
  assumes "opened f = Inr doc"
  shows "written (try_block nd out f) =
     List.map_filter (written_for (locals_of nd out f)) (visited doc)"
proof -
  let ?start = "\<lparr>returned = [], written = [], printed = []\<rparr>"
  obtain r acc where pl: "page_loop (locals_of nd out f) 0 (pages doc) ?start = (r, acc)"
    by (cases "page_loop (locals_of nd out f) 0 (pages doc) ?start") auto
  from written_page_loop[of "locals_of nd out f" 0 "pages doc" ?start] pl
  have "written acc = List.map_filter (written_for (locals_of nd out f)) (visited doc)"
    by (simp add: visited_def)
  with assms pl show ?thesis
    by (cases r; cases "close_error doc") (simp_all add: try_block_def Let_def outer_handler_def)
qed

lemma returned_try_block:
  assumes "opened f = Inr doc"
  shows "returned (try_block nd out f) =
     (if doc_ok doc then List.map_filter (listed_for (locals_of nd out f)) (visited doc) else [])"
proof -
  let ?start = "\<lparr>returned = [], written = [], printed = []\<rparr>"
  obtain r acc where pl: "page_loop (locals_of nd out f) 0 (pages doc) ?start = (r, acc)"
    by (cases "page_loop (locals_of nd out f) 0 (pages doc) ?start") auto
  from returned_page_loop[of "locals_of nd out f" 0 "pages doc" ?start] pl
  have ret: "returned acc = List.map_filter (listed_for (locals_of nd out f)) (visited doc)"
    by (simp add: visited_def)
  from page_loop_None_iff[of "locals_of nd out f" 0 "pages doc" ?start] pl
  have ok: "r = None \<longleftrightarrow> list_all page_ok (pages doc)" by simp
  from assms pl ret ok show ?thesis
    by (cases r; cases "close_error doc")
       (simp_all add: try_block_def Let_def outer_handler_def doc_ok_def)
qed

lemma extract_Inr: "extract_images_from_pdf nd out f = Inr r \<Longrightarrow> r = try_block nd out f"
  by (simp add: extract_images_from_pdf_def split: option.splits)

lemmas eval_names =
  asc_def stem_def rfind_dot_def year_of_def page_info_of_def page_at_def is_p_def is_sep_def
  re_digit_def img_filename_def fmt_02d_def str_nat.simps locals_of_def path_str_def joinpath_def Let_def

lemmas eval_loops =
  try_block_def extract_images_from_pdf_def visit_image_def outer_handler_def error_line_def
  warning_line_def Let_def

lemmas eval_visited =
  visited_def page_images_def page_ok_def doc_ok_def accepted_def written_for_def
  listed_for_def saved_as_def listed_as_def List.map_filter_simps

subsection \<open>The size filter\<close>

text \<open>
  Claim C1, as amended. The files written by \<open>extract_images_from_pdf\<close> are those of the
  images it comes to that extract without error, are at least 50 pixels wide and at least
  50 high and are saved without error, one file for each, in the order of the pages and
  of the images in them; an image less than 50 wide or less than 50 high gets no file
  and no entry. The list returned has the entries of the same images when no step at the
  level of the document raises (every page loads, \<open>close\<close> returns); when one does, the
  outer handler returns the empty list, whatever has been written.
\<close>

theorem size_filter:
  "(extract_images_from_pdf nd out f = Inr r \<and> opened f = Inr doc \<longrightarrow>
      written r = List.map_filter (written_for (locals_of nd out f)) (visited doc)
      \<and> returned r =
          (if doc_ok doc then List.map_filter (listed_for (locals_of nd out f)) (visited doc)
           else []))
   \<and> (extract_image img = Inr b \<and> (width b < 50 \<or> height b < 50) \<longrightarrow>
        written_for L (page_num, i, img) = None \<and> listed_for L (page_num, i, img) = None)
   \<and> (extract_image img = Inr b \<and> 50 \<le> width b \<and> 50 \<le> height b \<and> save_error img = None \<longrightarrow>
        written_for L (page_num, i, img) = Some (saved_as L i b)
        \<and> listed_for L (page_num, i, img) = Some (listed_as L i b))"
proof (intro conjI impI)
  assume h: "extract_images_from_pdf nd out f = Inr r \<and> opened f = Inr doc"
  then have r: "r = try_block nd out f" by (simp add: extract_Inr)
  from h show "written r = List.map_filter (written_for (locals_of nd out f)) (visited doc)"
    by (simp add: r written_try_block)
  from h show "returned r =
          (if doc_ok doc then List.map_filter (listed_for (locals_of nd out f)) (visited doc)
           else [])"
    by (simp add: r returned_try_block)
qed (auto simp: written_for_def listed_for_def accepted_def)

theorem size_filter_witness:
  "written (try_block (\<lambda>_. False) (asc ''/out'')
      \<lparr>parent = asc ''/d'', name = asc ''k2023.pdf'', exists = Inr True, mkdir_error = None,
       opened = Inr \<lparr>pages = [Inr
         [\<lparr>xref = 7, extract_image = Inr \<lparr>image_bytes = [1, 2, 3], image_ext = asc ''png'',
              width = 100, height = 80\<rparr>, save_error = None\<rparr>,
          \<lparr>xref = 8, extract_image = Inr \<lparr>image_bytes = [4], image_ext = asc ''png'',
              width = 49, height = 80\<rparr>, save_error = None\<rparr>]],
         close_error = None\<rparr>\<rparr>)
     = [(asc ''/out/2023/2023_full_img01.png'', [1, 2, 3])]
   \<and> map filename (returned (try_block (\<lambda>_. False) (asc ''/out'')
      \<lparr>parent = asc ''/d'', name = asc ''k2023.pdf'', exists = Inr True, mkdir_error = None,
       opened = Inr \<lparr>pages = [Inr
         [\<lparr>xref = 7, extract_image = Inr \<lparr>image_bytes = [1, 2, 3], image_ext = asc ''png'',
              width = 100, height = 80\<rparr>, save_error = None\<rparr>,
          \<lparr>xref = 8, extract_image = Inr \<lparr>image_bytes = [4], image_ext = asc ''png'',
              width = 49, height = 80\<rparr>, save_error = None\<rparr>]],
         close_error = None\<rparr>\<rparr>))
     = [asc ''2023_full_img01.png'']"
proof -
  let ?big = "\<lparr>xref = 7, extract_image = Inr \<lparr>image_bytes = [1, 2, 3], image_ext = asc ''png'',
              width = 100, height = 80\<rparr>, save_error = None\<rparr>"
  let ?small = "\<lparr>xref = 8, extract_image = Inr \<lparr>image_bytes = [4], image_ext = asc ''png'',
              width = 49, height = 80\<rparr>, save_error = None\<rparr>"
  let ?doc = "\<lparr>pages = [Inr [?big, ?small]], close_error = None\<rparr>"
  let ?f = "\<lparr>parent = asc ''/d'', name = asc ''k2023.pdf'', exists = Inr True, mkdir_error = None,
       opened = Inr ?doc\<rparr>"
  let ?nd = "\<lambda>_::nat. False"
  let ?L = "locals_of ?nd (asc ''/out'') ?f"
  have h: "extract_images_from_pdf ?nd (asc ''/out'') ?f = Inr (try_block ?nd (asc ''/out'') ?f)
      \<and> opened ?f = Inr ?doc"
    by (simp add: extract_images_from_pdf_def)
  note T = size_filter[where nd = ?nd and out = "asc ''/out''" and f = ?f and doc = ?doc
      and r = "try_block ?nd (asc ''/out'') ?f", THEN conjunct1, THEN mp, OF h]
  have L: "?L = \<lparr>pdf_name = asc ''k2023'', year = asc ''2023'', page_info = asc ''full'',
      year_dir = asc ''/out/2023''\<rparr>"
    by (simp add: eval_names)
  have w: "List.map_filter (written_for ?L) (visited ?doc)
      = [(asc ''/out/2023/2023_full_img01.png'', [1, 2, 3])]"
    unfolding L by (simp add: eval_visited eval_names)
  have l: "map filename (List.map_filter (listed_for ?L) (visited ?doc))
      = [asc ''2023_full_img01.png'']"
    unfolding L by (simp add: eval_visited eval_names)
  have ok: "doc_ok ?doc" by (simp add: doc_ok_def page_ok_def)
  from T w l ok show ?thesis by simp
qed

text \<open>
  The claim as stated fails where the second page of a document raises: the image of the
  first page, 100 by 80, is extracted and written, and the list returned is empty.
\<close>

theorem size_filter_counterexample:
  "extract_images_from_pdf (\<lambda>_. False) (asc ''/out'')
      \<lparr>parent = asc ''/d'', name = asc ''k2023.pdf'', exists = Inr True, mkdir_error = None,
       opened = Inr \<lparr>pages =
         [Inr [\<lparr>xref = 7, extract_image = Inr \<lparr>image_bytes = [1, 2, 3], image_ext = asc ''png'',
              width = 100, height = 80\<rparr>, save_error = None\<rparr>],
          Inl (Exception (asc ''damaged page''))],
         close_error = None\<rparr>\<rparr>
     = Inr \<lparr>returned = [],
            written = [(asc ''/out/2023/2023_full_img01.png'', [1, 2, 3])],
            printed = [error_line (asc ''/d/k2023.pdf'') (Exception (asc ''damaged page''))]\<rparr>"
  by (simp add: eval_loops eval_names)

lemma two_members:
  assumes "x \<in> set xs" "y \<in> set xs" "x \<noteq> y" "Q x" "Q y"
  shows "2 \<le> length (filter Q xs)"
proof -
  have "{x, y} \<subseteq> set (filter Q xs)" using assms by simp
  then have "card {x, y} \<le> card (set (filter Q xs))" by (intro card_mono) simp_all
  also have "\<dots> \<le> length (filter Q xs)" by (rule card_length)
  finally show ?thesis using assms(3) by simp
qed

lemma filter_map_filter:
  "length (filter P (List.map_filter g xs)) =
     length (filter (\<lambda>v. case g v of None \<Rightarrow> False | Some w \<Rightarrow> P w) xs)"
  by (induction xs) (auto simp: List.map_filter_simps split: option.splits)

lemma mem_map_filter: "v \<in> set xs \<Longrightarrow> g v = Some w \<Longrightarrow> w \<in> set (List.map_filter g xs)"
  by (force simp: List.map_filter_def)

subsection \<open>File names across pages\<close>

text \<open>
  Claim C10, as amended. The file name of a saved image is made of the year, the page
  information, the index of the image within its page and the extension of its format,
  and the number of the page has no part in what the loop does. Hence two saved images at
  the same index of different pages of one PDF that have the same extension get the same
  file name and the same path: both contents are written to that path, which is the
  target of two writes at least.
\<close>

theorem same_index_same_name:
  "(extract_images_from_pdf nd out f = Inr r \<and> opened f = Inr doc
      \<and> (pn1, i, a) \<in> set (visited doc) \<and> (pn2, i, b) \<in> set (visited doc) \<and> pn1 \<noteq> pn2
      \<and> accepted a = Some ba \<and> accepted b = Some bb \<and> image_ext ba = image_ext bb \<longrightarrow>
        saved_as (locals_of nd out f) i ba \<in> set (written r)
        \<and> saved_as (locals_of nd out f) i bb \<in> set (written r)
        \<and> fst (saved_as (locals_of nd out f) i ba) = fst (saved_as (locals_of nd out f) i bb)
        \<and> 2 \<le> length (filter (\<lambda>w. fst w = fst (saved_as (locals_of nd out f) i ba)) (written r)))
   \<and> filename (listed_as L k c) = img_filename (year L) (page_info L) k (image_ext c)
   \<and> path (listed_as L k c) = fst (saved_as L k c)
   \<and> fst (saved_as L k c) = joinpath (year_dir L) (img_filename (year L) (page_info L) k (image_ext c))
   \<and> page_loop L n ps acc = page_loop L n' ps acc"
proof (intro conjI impI)
  assume h: "extract_images_from_pdf nd out f = Inr r \<and> opened f = Inr doc
      \<and> (pn1, i, a) \<in> set (visited doc) \<and> (pn2, i, b) \<in> set (visited doc) \<and> pn1 \<noteq> pn2
      \<and> accepted a = Some ba \<and> accepted b = Some bb \<and> image_ext ba = image_ext bb"
  let ?L = "locals_of nd out f"
  from h have "r = try_block nd out f" by (blast dest: extract_Inr)
  with h have r: "written r = List.map_filter (written_for ?L) (visited doc)"
    by (simp add: written_try_block)
  from h have wa: "written_for ?L (pn1, i, a) = Some (saved_as ?L i ba)"
    and wb: "written_for ?L (pn2, i, b) = Some (saved_as ?L i bb)"
    by (simp_all add: written_for_def)
  from h wa show "saved_as ?L i ba \<in> set (written r)"
    unfolding r by (intro mem_map_filter[of "(pn1, i, a)"]) simp_all
  from h wb show "saved_as ?L i bb \<in> set (written r)"
    unfolding r by (intro mem_map_filter[of "(pn2, i, b)"]) simp_all
  from h show same: "fst (saved_as ?L i ba) = fst (saved_as ?L i bb)"
    by (simp add: saved_as_def)
  let ?Q = "\<lambda>v. case written_for ?L v of None \<Rightarrow> False
                 | Some w \<Rightarrow> fst w = fst (saved_as ?L i ba)"
  have "2 \<le> length (filter ?Q (visited doc))"
    using h wa wb same by (intro two_members[of "(pn1, i, a)" _ "(pn2, i, b)"]) simp_all
  then show "2 \<le> length (filter (\<lambda>w. fst w = fst (saved_as ?L i ba)) (written r))"
    unfolding r by (simp add: filter_map_filter)
qed (simp_all add: listed_as_def saved_as_def page_loop_page_num)

theorem same_index_same_name_witness:
  "2 \<le> length (filter (\<lambda>w. fst w = asc ''/out/2023/2023_full_img01.png'')
      (written (try_block (\<lambda>_. False) (asc ''/out'')
        \<lparr>parent = asc ''/d'', name = asc ''k2023.pdf'', exists = Inr True, mkdir_error = None,
         opened = Inr \<lparr>pages =
           [Inr [\<lparr>xref = 7, extract_image = Inr \<lparr>image_bytes = [1, 2, 3], image_ext = asc ''png'',
                width = 100, height = 80\<rparr>, save_error = None\<rparr>],
            Inr [\<lparr>xref = 9, extract_image = Inr \<lparr>image_bytes = [5, 6], image_ext = asc ''png'',
                width = 60, height = 70\<rparr>, save_error = None\<rparr>]],
           close_error = None\<rparr>\<rparr>)))"
proof -
  let ?ba = "\<lparr>image_bytes = [1, 2, 3], image_ext = asc ''png'', width = 100, height = 80\<rparr>"
  let ?bb = "\<lparr>image_bytes = [5, 6], image_ext = asc ''png'', width = 60, height = 70\<rparr>"
  let ?a = "\<lparr>xref = 7, extract_image = Inr ?ba, save_error = None\<rparr>"
  let ?b = "\<lparr>xref = 9, extract_image = Inr ?bb, save_error = None\<rparr>"
  let ?doc = "\<lparr>pages = [Inr [?a], Inr [?b]], close_error = None\<rparr>"
  let ?f = "\<lparr>parent = asc ''/d'', name = asc ''k2023.pdf'', exists = Inr True, mkdir_error = None,
       opened = Inr ?doc\<rparr>"
  let ?nd = "\<lambda>_::nat. False"
  let ?L = "locals_of ?nd (asc ''/out'') ?f"
  have h: "extract_images_from_pdf ?nd (asc ''/out'') ?f = Inr (try_block ?nd (asc ''/out'') ?f)
      \<and> opened ?f = Inr ?doc
      \<and> (0, 0, ?a) \<in> set (visited ?doc) \<and> (1, 0, ?b) \<in> set (visited ?doc) \<and> (0::nat) \<noteq> 1
      \<and> accepted ?a = Some ?ba \<and> accepted ?b = Some ?bb \<and> image_ext ?ba = image_ext ?bb"
    by (simp add: extract_images_from_pdf_def visited_def page_images_def page_ok_def
          accepted_def)
  note T = same_index_same_name[where nd = ?nd and out = "asc ''/out''" and f = ?f
      and doc = ?doc and r = "try_block ?nd (asc ''/out'') ?f" and ?pn1.0 = 0 and ?pn2.0 = 1
      and i = 0 and a = ?a and b = ?b and ba = ?ba and bb = ?bb,
      THEN conjunct1, THEN mp, OF h]
  have p: "fst (saved_as ?L 0 ?ba) = asc ''/out/2023/2023_full_img01.png''"
    by (simp add: saved_as_def eval_names)
  from T show ?thesis unfolding p by blast
qed

text \<open>
  The claim as stated fails for two images at index 0 of two pages of which one is a PNG
  and the other a JPEG: the paths differ.
\<close>

theorem same_index_same_name_counterexample:
  "(case extract_images_from_pdf (\<lambda>_. False) (asc ''/out'')
        \<lparr>parent = asc ''/d'', name = asc ''k2023.pdf'', exists = Inr True, mkdir_error = None,
         opened = Inr \<lparr>pages =
           [Inr [\<lparr>xref = 7, extract_image = Inr \<lparr>image_bytes = [1, 2, 3], image_ext = asc ''png'',
                width = 100, height = 80\<rparr>, save_error = None\<rparr>],
            Inr [\<lparr>xref = 9, extract_image = Inr \<lparr>image_bytes = [5, 6], image_ext = asc ''jpeg'',
                width = 60, height = 70\<rparr>, save_error = None\<rparr>]],
           close_error = None\<rparr>\<rparr>
      of Inl e \<Rightarrow> [] | Inr r \<Rightarrow> map fst (written r))
     = [asc ''/out/2023/2023_full_img01.png'', asc ''/out/2023/2023_full_img01.jpeg'']
   \<and> asc ''/out/2023/2023_full_img01.png'' \<noteq> asc ''/out/2023/2023_full_img01.jpeg''"
  by (simp add: eval_loops eval_names)

subsection \<open>The tokens of the file name\<close>

lemma year_dir_locals: "year_dir (locals_of nd out f) = joinpath out (year (locals_of nd out f))"
  by (simp add: locals_of_def Let_def)

lemma year_locals: "year (locals_of nd out f) = year_of nd (stem (name f))"
  by (simp add: locals_of_def Let_def)

lemma page_info_locals: "page_info (locals_of nd out f) = page_info_of nd (stem (name f))"
  by (simp add: locals_of_def Let_def)

lemma img_filename_eq:
  "img_filename yr pg i e =
     yr @ asc ''_'' @ pg @ asc ''_img'' @ (if i < 9 then [48, 49 + i] else str_nat (i + 1))
        @ asc ''.'' @ e"
  by (simp add: img_filename_def fmt_02d_eq)

lemma saved_as_eq:
  "saved_as (locals_of nd out f) i b =
     (joinpath (joinpath out (year (locals_of nd out f)))
        (year (locals_of nd out f) @ asc ''_'' @ page_info (locals_of nd out f) @ asc ''_img''
           @ (if i < 9 then [48, 49 + i] else str_nat (i + 1)) @ asc ''.'' @ image_ext b),
      image_bytes b)"
  by (simp only: saved_as_def year_dir_locals img_filename_eq)

lemma mem_map_filterD: "w \<in> set (List.map_filter g xs) \<Longrightarrow> \<exists>v\<in>set xs. g v = Some w"
  by (auto simp: List.map_filter_def)

lemma saved_image_written:
  assumes "extract_images_from_pdf nd out f = Inr r" "opened f = Inr doc"
    and "(pn, i, img) \<in> set (visited doc)" "accepted img = Some b"
  shows "saved_as (locals_of nd out f) i b \<in> set (written r)"
proof -
  from assms(1) have r: "r = try_block nd out f" by (rule extract_Inr)
  have "written_for (locals_of nd out f) (pn, i, img) = Some (saved_as (locals_of nd out f) i b)"
    using assms(4) by (simp add: written_for_def)
  with assms(3) show ?thesis
    unfolding r written_try_block[OF assms(2)] by (rule mem_map_filter)
qed

lemma listed_name:
  assumes "extract_images_from_pdf nd out f = Inr r" "e \<in> set (returned r)"
  shows "\<exists>i b. e = listed_as (locals_of nd out f) i b"
proof (cases "opened f")
  case (Inl x)
  from assms(1) have "r = try_block nd out f" by (rule extract_Inr)
  with Inl have "returned r = []"
    by (simp add: try_block_def Let_def outer_handler_def)
  with assms(2) show ?thesis by simp
next
  case (Inr doc)
  from assms(1) have "r = try_block nd out f" by (rule extract_Inr)
  with assms(2) returned_try_block[OF Inr, of nd out]
  have "e \<in> set (List.map_filter (listed_for (locals_of nd out f)) (visited doc))"
    by (simp split: if_splits)
  then obtain v where "listed_for (locals_of nd out f) v = Some e"
    by (blast dest: mem_map_filterD)
  then show ?thesis
    by (cases v) (auto simp: listed_for_def)
qed

text \<open>
  Claim C5, as amended. \<open>re.search\<close> returns the leftmost match, and \<open>\d+\<close> takes a
  whole run of digits. So: when the stem of the PDF contains a year (\<open>20\<close> or \<open>19\<close> and
  two digits) and no year begins further left, that year is the year extracted; when it
  contains a page token with the numbers \<open>N\<close> and \<open>M\<close> (\<open>p\<close> or \<open>P\<close>, \<open>N\<close>, \<open>-\<close> or
  \<open>_\<close>, an optional \<open>p\<close> or \<open>P\<close>, \<open>M\<close>, the digits of \<open>M\<close> not going on after the
  token) and no token begins further left, the page information is \<open>pN-pM\<close>; when no
  year begins anywhere in the stem the year is \<open>unknown\<close>, and when no page token does
  the page information is \<open>full\<close>. Every image that \<open>extract_images_from_pdf\<close> saves is
  written to the folder of that year under the name made of the year, \<open>_\<close>, the page
  information, \<open>_img\<close>, the index plus one in two digits at least, a dot and the
  extension, as in \<open>2023_p2-p3_img01.png\<close>, and every entry of the list returned has a
  file name of that form and the path of that file.
\<close>

theorem file_name_tokens:
  "(stem (name f) = pre @ y @ post \<and> year_shape nd y
      \<and> (\<forall>n<length pre. \<not> year_here nd (drop n (stem (name f))))
      \<longrightarrow> year (locals_of nd out f) = y)
   \<and> (stem (name f) = pre' @ t @ post' \<and> number nd N \<and> number nd M \<and> t \<in> set (page_tokens N M)
        \<and> (post' = [] \<or> \<not> re_digit nd (hd post'))
        \<and> (\<forall>n<length pre'. \<not> token_here nd (drop n (stem (name f))))
      \<longrightarrow> page_info (locals_of nd out f) = asc ''p'' @ N @ asc ''-p'' @ M)
   \<and> ((\<forall>n. \<not> year_here nd (drop n (stem (name f)))) \<longrightarrow> year (locals_of nd out f) = asc ''unknown'')
   \<and> ((\<forall>n. \<not> token_here nd (drop n (stem (name f)))) \<longrightarrow> page_info (locals_of nd out f) = asc ''full'')
   \<and> (extract_images_from_pdf nd out f = Inr r \<and> opened f = Inr doc
        \<and> (pn, i, img) \<in> set (visited doc) \<and> accepted img = Some b \<longrightarrow>
        (joinpath (joinpath out (year (locals_of nd out f)))
           (year (locals_of nd out f) @ asc ''_'' @ page_info (locals_of nd out f) @ asc ''_img''
              @ (if i < 9 then [48, 49 + i] else str_nat (i + 1)) @ asc ''.'' @ image_ext b),
         image_bytes b) \<in> set (written r))
   \<and> (extract_images_from_pdf nd out f = Inr r \<and> e \<in> set (returned r) \<longrightarrow>
        (\<exists>k ext. filename e =
            year (locals_of nd out f) @ asc ''_'' @ page_info (locals_of nd out f) @ asc ''_img''
              @ (if k < 9 then [48, 49 + k] else str_nat (k + 1)) @ asc ''.'' @ ext)
        \<and> path e = joinpath (joinpath out (year (locals_of nd out f))) (filename e))"
proof (intro conjI impI)
  assume h: "extract_images_from_pdf nd out f = Inr r \<and> opened f = Inr doc
        \<and> (pn, i, img) \<in> set (visited doc) \<and> accepted img = Some b"
  then have "saved_as (locals_of nd out f) i b \<in> set (written r)"
    by (intro saved_image_written[of nd out f r doc pn i img b]) simp_all
  then show "(joinpath (joinpath out (year (locals_of nd out f)))
           (year (locals_of nd out f) @ asc ''_'' @ page_info (locals_of nd out f) @ asc ''_img''
              @ (if i < 9 then [48, 49 + i] else str_nat (i + 1)) @ asc ''.'' @ image_ext b),
         image_bytes b) \<in> set (written r)"
    by (simp only: saved_as_eq)
next
  assume h: "extract_images_from_pdf nd out f = Inr r \<and> e \<in> set (returned r)"
  then obtain k b where e: "e = listed_as (locals_of nd out f) k b"
    using listed_name[of nd out f r e] by blast
  have fn: "filename e =
            year (locals_of nd out f) @ asc ''_'' @ page_info (locals_of nd out f) @ asc ''_img''
              @ (if k < 9 then [48, 49 + k] else str_nat (k + 1)) @ asc ''.'' @ image_ext b"
    by (simp add: e listed_as_def img_filename_eq)
  then show "\<exists>k ext. filename e =
            year (locals_of nd out f) @ asc ''_'' @ page_info (locals_of nd out f) @ asc ''_img''
              @ (if k < 9 then [48, 49 + k] else str_nat (k + 1)) @ asc ''.'' @ ext"
    by blast
  show "path e = joinpath (joinpath out (year (locals_of nd out f))) (filename e)"
    by (simp add: e listed_as_def year_dir_locals)
qed (auto simp: year_locals page_info_locals
       intro: year_found page_found year_default page_default)

theorem file_name_tokens_witness:
  "year (locals_of (\<lambda>_. False) (asc ''/out'')
      \<lparr>parent = asc ''/d'', name = asc ''shi2023_P2_3.pdf'', exists = Inr True, mkdir_error = None,
       opened = Inr \<lparr>pages =
         [Inr [\<lparr>xref = 7, extract_image = Inr \<lparr>image_bytes = [137, 80, 78], image_ext = asc ''png'',
              width = 100, height = 80\<rparr>, save_error = None\<rparr>]],
         close_error = None\<rparr>\<rparr>) = asc ''2023''
   \<and> page_info (locals_of (\<lambda>_. False) (asc ''/out'')
      \<lparr>parent = asc ''/d'', name = asc ''shi2023_P2_3.pdf'', exists = Inr True, mkdir_error = None,
       opened = Inr \<lparr>pages =
         [Inr [\<lparr>xref = 7, extract_image = Inr \<lparr>image_bytes = [137, 80, 78], image_ext = asc ''png'',
              width = 100, height = 80\<rparr>, save_error = None\<rparr>]],
         close_error = None\<rparr>\<rparr>) = asc ''p2-p3''
   \<and> year (locals_of (\<lambda>_. False) (asc ''/out'')
      \<lparr>parent = asc ''/d'', name = asc ''memo.pdf'', exists = Inr True, mkdir_error = None,
       opened = Inr \<lparr>pages = [], close_error = None\<rparr>\<rparr>) = asc ''unknown''
   \<and> page_info (locals_of (\<lambda>_. False) (asc ''/out'')
      \<lparr>parent = asc ''/d'', name = asc ''memo.pdf'', exists = Inr True, mkdir_error = None,
       opened = Inr \<lparr>pages = [], close_error = None\<rparr>\<rparr>) = asc ''full''
   \<and> (asc ''/out/2023/2023_p2-p3_img01.png'', [137, 80, 78])
       \<in> set (written (try_block (\<lambda>_. False) (asc ''/out'')
      \<lparr>parent = asc ''/d'', name = asc ''shi2023_P2_3.pdf'', exists = Inr True, mkdir_error = None,
       opened = Inr \<lparr>pages =
         [Inr [\<lparr>xref = 7, extract_image = Inr \<lparr>image_bytes = [137, 80, 78], image_ext = asc ''png'',
              width = 100, height = 80\<rparr>, save_error = None\<rparr>]],
         close_error = None\<rparr>\<rparr>))
   \<and> map path (returned (try_block (\<lambda>_. False) (asc ''/out'')
      \<lparr>parent = asc ''/d'', name = asc ''shi2023_P2_3.pdf'', exists = Inr True, mkdir_error = None,
       opened = Inr \<lparr>pages =
         [Inr [\<lparr>xref = 7, extract_image = Inr \<lparr>image_bytes = [137, 80, 78], image_ext = asc ''png'',
              width = 100, height = 80\<rparr>, save_error = None\<rparr>]],
         close_error = None\<rparr>\<rparr>)) = [asc ''/out/2023/2023_p2-p3_img01.png'']"
proof -
  let ?nd = "\<lambda>_::nat. False"
  let ?b = "\<lparr>image_bytes = [137, 80, 78], image_ext = asc ''png'', width = 100, height = 80\<rparr>"
  let ?img = "\<lparr>xref = 7, extract_image = Inr ?b, save_error = None\<rparr>"
  let ?doc = "\<lparr>pages = [Inr [?img]], close_error = None\<rparr>"
  let ?f = "\<lparr>parent = asc ''/d'', name = asc ''shi2023_P2_3.pdf'', exists = Inr True,
       mkdir_error = None, opened = Inr ?doc\<rparr>"
  let ?g = "\<lparr>parent = asc ''/d'', name = asc ''memo.pdf'', exists = Inr True, mkdir_error = None,
       opened = Inr \<lparr>pages = [], close_error = None\<rparr>\<rparr>"
  let ?r = "try_block ?nd (asc ''/out'') ?f"
  let ?L = "locals_of ?nd (asc ''/out'') ?f"
  let ?e = "listed_as ?L 0 ?b"
  note T = file_name_tokens[where nd = ?nd and out = "asc ''/out''" and f = ?f
      and pre = "asc ''shi''" and y = "asc ''2023''" and post = "asc ''_P2_3''"
      and pre' = "asc ''shi2023_''" and t = "asc ''P2_3''" and post' = "[]"
      and N = "asc ''2''" and M = "asc ''3''" and r = ?r and doc = ?doc and pn = 0 and i = 0
      and img = ?img and b = ?b and e = ?e]
  note U = file_name_tokens[where nd = ?nd and out = "asc ''/out''" and f = ?g]
  have sf: "stem (name ?f) = asc ''shi2023_P2_3''"
    by (simp add: stem_def rfind_dot_def asc_def)
  have sg: "stem (name ?g) = asc ''memo''"
    by (simp add: stem_def rfind_dot_def asc_def)
  have h1: "stem (name ?f) = asc ''shi'' @ asc ''2023'' @ asc ''_P2_3'' \<and> year_shape ?nd (asc ''2023'')
      \<and> (\<forall>n<length (asc ''shi''). \<not> year_here ?nd (drop n (stem (name ?f))))"
    unfolding sf by (simp add: asc_def year_shape_def year_here_def re_digit_def less_Suc_eq)
  have h2: "stem (name ?f) = asc ''shi2023_'' @ asc ''P2_3'' @ [] \<and> number ?nd (asc ''2'')
      \<and> number ?nd (asc ''3'') \<and> asc ''P2_3'' \<in> set (page_tokens (asc ''2'') (asc ''3''))
      \<and> ([] = [] \<or> \<not> re_digit ?nd (hd []))
      \<and> (\<forall>n<length (asc ''shi2023_''). \<not> token_here ?nd (drop n (stem (name ?f))))"
    unfolding sf
    by (simp add: asc_def number_def page_tokens_def re_digit_def less_Suc_eq
          page_at_None_iff[symmetric] page_at_def is_p_def)
  have h3: "\<forall>n. \<not> year_here ?nd (drop n (stem (name ?g)))"
    unfolding sg by (simp add: no_year_iff asc_def)
  have h4: "\<forall>n. \<not> token_here ?nd (drop n (stem (name ?g)))"
    unfolding sg by (simp add: no_token_iff asc_def page_at_def is_p_def)
  have ret: "returned ?r = [?e]"
    by (simp add: returned_try_block visited_def page_images_def page_ok_def doc_ok_def
          accepted_def listed_for_def List.map_filter_simps)
  have h5: "extract_images_from_pdf ?nd (asc ''/out'') ?f = Inr ?r \<and> opened ?f = Inr ?doc
        \<and> (0, 0, ?img) \<in> set (visited ?doc) \<and> accepted ?img = Some ?b"
    by (simp add: extract_images_from_pdf_def visited_def page_images_def page_ok_def
          accepted_def)
  have h6: "extract_images_from_pdf ?nd (asc ''/out'') ?f = Inr ?r \<and> ?e \<in> set (returned ?r)"
    unfolding ret by (simp add: extract_images_from_pdf_def)
  have c1: "year ?L = asc ''2023''"
    by (rule T[THEN conjunct1, THEN mp, OF h1])
  have c2: "page_info ?L = asc ''p'' @ asc ''2'' @ asc ''-p'' @ asc ''3''"
    by (rule T[THEN conjunct2, THEN conjunct1, THEN mp, OF h2])
  have c3: "year (locals_of ?nd (asc ''/out'') ?g) = asc ''unknown''"
    by (rule U[THEN conjunct2, THEN conjunct2, THEN conjunct1, THEN mp, OF h3])
  have c4: "page_info (locals_of ?nd (asc ''/out'') ?g) = asc ''full''"
    by (rule U[THEN conjunct2, THEN conjunct2, THEN conjunct2, THEN conjunct1, THEN mp, OF h4])
  have c5: "(joinpath (joinpath (asc ''/out'') (year ?L))
           (year ?L @ asc ''_'' @ page_info ?L @ asc ''_img''
              @ (if (0::nat) < 9 then [48, 49 + 0] else str_nat (0 + 1)) @ asc ''.'' @ image_ext ?b),
         image_bytes ?b) \<in> set (written ?r)"
    by (rule T[THEN conjunct2, THEN conjunct2, THEN conjunct2, THEN conjunct2, THEN conjunct1,
          THEN mp, OF h5])
  have c6: "(\<exists>k ext. filename ?e =
            year ?L @ asc ''_'' @ page_info ?L @ asc ''_img''
              @ (if k < 9 then [48, 49 + k] else str_nat (k + 1)) @ asc ''.'' @ ext)
        \<and> path ?e = joinpath (joinpath (asc ''/out'') (year ?L)) (filename ?e)"
    by (rule T[THEN conjunct2, THEN conjunct2, THEN conjunct2, THEN conjunct2, THEN conjunct2,
          THEN mp, OF h6])
  have fe: "filename ?e = year ?L @ asc ''_'' @ page_info ?L @ asc ''_img01.png''"
    by (simp add: listed_as_def img_filename_eq asc_def)
  have d2: "page_info ?L = asc ''p2-p3''" using c2 by (simp add: asc_def)
  have p5: "joinpath (joinpath (asc ''/out'') (asc ''2023'')) (asc ''2023_p2-p3_img01.png'')
      = asc ''/out/2023/2023_p2-p3_img01.png''"
    by (simp add: joinpath_def asc_def)
  have d5: "(asc ''/out/2023/2023_p2-p3_img01.png'', [137, 80, 78]) \<in> set (written ?r)"
    using c5 p5 unfolding c1 d2 by (simp add: asc_def)
  have d6: "map path (returned ?r) = [asc ''/out/2023/2023_p2-p3_img01.png'']"
    using c6 p5 unfolding ret fe c1 d2 by (simp add: asc_def)
  from c1 d2 c3 c4 d5 d6 show ?thesis by blast
qed

text \<open>
  The claim as stated fails for a stem that holds two years, or a token whose second
  number goes on: \<open>1999x2005\<close> contains the year 2005 and gives 1999, and \<open>p2-p34\<close>
  contains the token \<open>p2-p3\<close> and gives \<open>p2-p34\<close>.
\<close>

theorem file_name_tokens_counterexample:
  "stem (asc ''1999x2005.pdf'') = asc ''1999x'' @ asc ''2005'' @ []
   \<and> year_shape (\<lambda>_. False) (asc ''2005'')
   \<and> year (locals_of (\<lambda>_. False) (asc ''/out'')
      \<lparr>parent = asc ''/d'', name = asc ''1999x2005.pdf'', exists = Inr True, mkdir_error = None,
       opened = Inr \<lparr>pages = [], close_error = None\<rparr>\<rparr>) = asc ''1999''
   \<and> stem (asc ''p2-p34.pdf'') = [] @ asc ''p2-p3'' @ asc ''4''
   \<and> asc ''p2-p3'' \<in> set (page_tokens (asc ''2'') (asc ''3''))
   \<and> page_info (locals_of (\<lambda>_. False) (asc ''/out'')
      \<lparr>parent = asc ''/d'', name = asc ''p2-p34.pdf'', exists = Inr True, mkdir_error = None,
       opened = Inr \<lparr>pages = [], close_error = None\<rparr>\<rparr>) = asc ''p2-p34''"
  by (simp add: eval_names optional_p_def year_shape_def page_tokens_def)

lemma asc_exts_distinct:
  "asc ''.doc'' \<noteq> asc ''.pdf''" "asc ''.doc'' \<noteq> asc ''.docx''" "asc ''.doc'' \<noteq> asc ''.txt''"
  by (simp_all add: asc_def)

subsection \<open>Dispatch on the extension\<close>

text \<open>
  Claim C4. For a file whose suffix, in lower case, is none of \<open>.pdf\<close>, \<open>.docx\<close>,
  \<open>.doc\<close> and \<open>.txt\<close>, \<open>extract_text\<close> returns the placeholder that names the suffix,
  an opening bracket, nine Japanese characters, a colon, a space, the suffix and a closing
  bracket; for \<open>.doc\<close> it returns the fixed placeholder of line 119, which says that
  the format is not supported and that a conversion to \<open>.docx\<close> is needed.
  No step of \<open>extract_text\<close> is outside a handler, so it returns a text for every file.
\<close>

theorem unsupported_extension:
  "(lower E (suffix_of (name f)) \<notin> {asc ''.pdf'', asc ''.docx'', asc ''.doc'', asc ''.txt''} \<longrightarrow>
      extract_text E f = unsupported_msg (lower E (suffix_of (name f))))
   \<and> (lower E (suffix_of (name f)) = asc ''.doc'' \<longrightarrow>
        extract_text E f = doc_msg
        \<and> extract_text E f =
            asc ''[.doc'' @ [0x5F62, 0x5F0F, 0x306F, 0x975E, 0x5BFE, 0x5FDC] @ asc '' - .docx''
              @ [0x306B, 0x5909, 0x63DB, 0x304C, 0x5FC5, 0x8981] @ asc '']'')
   \<and> unsupported_msg sfx =
        asc ''['' @ [0x975E, 0x5BFE, 0x5FDC, 0x30D5, 0x30A1, 0x30A4, 0x30EB, 0x5F62, 0x5F0F] @ asc '': ''
          @ sfx @ asc '']''"
proof (intro conjI impI)
  assume d: "lower E (suffix_of (name f)) = asc ''.doc''"
  then show m: "extract_text E f = doc_msg"
    by (simp add: extract_text_def Let_def asc_exts_distinct)
  show "extract_text E f =
            asc ''[.doc'' @ [0x5F62, 0x5F0F, 0x306F, 0x975E, 0x5BFE, 0x5FDC] @ asc '' - .docx''
              @ [0x306B, 0x5909, 0x63DB, 0x304C, 0x5FC5, 0x8981] @ asc '']''"
    unfolding m by (simp only: doc_msg_def)
qed (simp_all add: extract_text_def Let_def unsupported_msg_def)

theorem unsupported_extension_witness:
  "extract_text
     \<lparr>pypdf2_installed = True, docx_installed = True, lower_table = (\<lambda>s. s),
      space_table = (\<lambda>c. False), chat = (\<lambda>nm content. Inr (Some (asc ''## summary'')))\<rparr>
     \<lparr>parent = asc ''/d'', name = asc ''table.XLS'', pdf_pages = Inr [], docx_paragraphs = Inr [],
      txt_content = Inr []\<rparr>
     = unsupported_msg (asc ''.xls'')
   \<and> extract_text
     \<lparr>pypdf2_installed = True, docx_installed = True, lower_table = (\<lambda>s. s),
      space_table = (\<lambda>c. False), chat = (\<lambda>nm content. Inr (Some (asc ''## summary'')))\<rparr>
     \<lparr>parent = asc ''/d'', name = asc ''old.DOC'', pdf_pages = Inr [], docx_paragraphs = Inr [],
      txt_content = Inr []\<rparr>
     = doc_msg"
proof -
  let ?E = "\<lparr>pypdf2_installed = True, docx_installed = True, lower_table = (\<lambda>s. s),
      space_table = (\<lambda>c. False), chat = (\<lambda>nm content. Inr (Some (asc ''## summary'')))\<rparr>"
  let ?f = "\<lparr>parent = asc ''/d'', name = asc ''table.XLS'', pdf_pages = Inr [],
      docx_paragraphs = Inr [], txt_content = Inr []\<rparr>"
  let ?g = "\<lparr>parent = asc ''/d'', name = asc ''old.DOC'', pdf_pages = Inr [],
      docx_paragraphs = Inr [], txt_content = Inr []\<rparr>"
  have lf: "lower ?E (suffix_of (name ?f)) = asc ''.xls''"
    by (simp add: lower_def suffix_of_def rfind_dot_def asc_def)
  have lg: "lower ?E (suffix_of (name ?g)) = asc ''.doc''"
    by (simp add: lower_def suffix_of_def rfind_dot_def asc_def)
  have h1: "lower ?E (suffix_of (name ?f)) \<notin> {asc ''.pdf'', asc ''.docx'', asc ''.doc'', asc ''.txt''}"
    unfolding lf by (simp add: asc_def)
  have c1: "extract_text ?E ?f = unsupported_msg (lower ?E (suffix_of (name ?f)))"
    by (rule unsupported_extension[THEN conjunct1, THEN mp, OF h1])
  have c2: "extract_text ?E ?g = doc_msg"
    by (rule unsupported_extension[THEN conjunct2, THEN conjunct1, THEN mp, OF lg, THEN conjunct1])
  from c1 c2 lf show ?thesis by simp
qed

lemma startswith_1: "startswith s [c] \<longleftrightarrow> s \<noteq> [] \<and> hd s = c"
  by (cases s) (auto simp: startswith_def)

lemma endswith_1: "endswith s [c] \<longleftrightarrow> s \<noteq> [] \<and> last s = c"
proof (cases "s = []")
  case True
  then show ?thesis by (simp add: endswith_def)
next
  case False
  then obtain b where s: "s = butlast s @ [b]" and b: "b = last s"
    by (metis append_butlast_last_id)
  have "drop (length s - 1) s = [b]"
    by (subst (2) s) simp
  with False b show ?thesis by (auto simp: endswith_def Suc_le_eq)
qed

lemma bracketed_iff: "bracketed c \<longleftrightarrow> c \<noteq> [] \<and> hd c = 91 \<and> last c = 93"
  by (auto simp: bracketed_def asc_def startswith_1 endswith_1)

subsection \<open>Texts in brackets\<close>

text \<open>
  Claim C9. When the text extracted from a file begins with an opening bracket and ends
  with a closing one, \<open>process_file\<close> returns the error section made of the file name
  and that text (the text of line 140) and calls the service not at all, also when the
  text is what the file holds, as for a text file that reads \<open>[draft of the talk]\<close>.
\<close>

theorem bracketed_text_is_error:
  "(bracketed (extract_text E f) \<longrightarrow>
      process_file E f = (Some (error_section (name f) (extract_text E f)), []))
   \<and> bracketed c = (c \<noteq> [] \<and> hd c = 91 \<and> last c = 93)
   \<and> error_section nm c =
        [0xA] @ asc ''---'' @ [0xA, 0xA] @ asc ''## '' @ nm
          @ [0xA, 0xA] @ asc ''**'' @ [0x30A8, 0x30E9, 0x30FC] @ asc ''**: '' @ c
          @ [0xA, 0xA] @ asc ''---'' @ [0xA]"
proof (intro conjI impI)
  show "error_section nm c =
        [0xA] @ asc ''---'' @ [0xA, 0xA] @ asc ''## '' @ nm
          @ [0xA, 0xA] @ asc ''**'' @ [0x30A8, 0x30E9, 0x30FC] @ asc ''**: '' @ c
          @ [0xA, 0xA] @ asc ''---'' @ [0xA]"
    by (simp only: error_section_def)
qed (simp_all add: process_file_def Let_def bracketed_def[symmetric] bracketed_iff)

theorem bracketed_text_is_error_witness:
  "process_file
     \<lparr>pypdf2_installed = True, docx_installed = True, lower_table = (\<lambda>s. s),
      space_table = (\<lambda>c. False), chat = (\<lambda>nm content. Inr (Some (asc ''## summary'')))\<rparr>
     \<lparr>parent = asc ''/d'', name = asc ''note.txt'', pdf_pages = Inr [], docx_paragraphs = Inr [],
      txt_content = Inr (asc ''[draft of the talk]'')\<rparr>
     = (Some (error_section (asc ''note.txt'') (asc ''[draft of the talk]'')), [])"
proof -
  let ?E = "\<lparr>pypdf2_installed = True, docx_installed = True, lower_table = (\<lambda>s. s),
      space_table = (\<lambda>c. False), chat = (\<lambda>nm content. Inr (Some (asc ''## summary'')))\<rparr>"
  let ?f = "\<lparr>parent = asc ''/d'', name = asc ''note.txt'', pdf_pages = Inr [],
      docx_paragraphs = Inr [], txt_content = Inr (asc ''[draft of the talk]'')\<rparr>"
  have t: "extract_text ?E ?f = asc ''[draft of the talk]''"
    by (simp add: extract_text_def lower_def suffix_of_def rfind_dot_def asc_def)
  have h: "bracketed (extract_text ?E ?f)"
    unfolding t by (simp add: bracketed_iff asc_def)
  have "process_file ?E ?f = (Some (error_section (name ?f) (extract_text ?E ?f)), [])"
    by (rule bracketed_text_is_error[THEN conjunct1, THEN mp, OF h])
  then show ?thesis by (simp add: t)
qed

lemma omitted_marker_length: "length omitted_marker = 13"
  by (simp add: omitted_marker_def asc_def)

lemma truncate_length: "length (truncate_text t) \<le> 15000 + length omitted_marker"
  by (simp add: truncate_text_def omitted_marker_length)

lemma strip_nonempty: "strip E s \<noteq> [] \<longleftrightarrow> (\<exists>c\<in>set s. \<not> isspace E c)"
proof -
  have "strip E s \<noteq> [] \<longleftrightarrow> dropWhile (isspace E) s \<noteq> []"
    by (auto simp: strip_def dropWhile_eq_Nil_conv dest: set_dropWhileD)
       (metis (no_types, lifting) dropWhile_eq_Nil_conv hd_dropWhile hd_in_set set_rev
          last_in_set last_rev rev_is_Nil_conv)
  then show ?thesis by (auto simp: dropWhile_eq_Nil_conv)
qed

lemma dot_not_space: "\<not> isspace E 46"
  by (simp add: isspace_def)

lemma strip_marked: "strip E (x @ omitted_marker) \<noteq> []"
  unfolding strip_nonempty
  by (rule bexI[of _ 46]) (simp_all add: dot_not_space omitted_marker_def asc_def)

lemma truncate_long: "length t > 15000 \<Longrightarrow> truncate_text t = take 15000 t @ omitted_marker"
  by (simp add: truncate_text_def)

lemma pdf_long:
  assumes "pypdf2_installed E" "pdf_pages f = Inr ps"
    and "length (join [0xA] (filter (\<lambda>p. p \<noteq> []) ps)) > 15000"
  shows "extract_text_from_pdf E f = take 15000 (join [0xA] (filter (\<lambda>p. p \<noteq> []) ps)) @ omitted_marker"
  using assms by (simp add: extract_text_from_pdf_def Let_def truncate_long strip_marked)

lemma docx_long:
  assumes "docx_installed E" "docx_paragraphs f = Inr ps"
    and "length (join [0xA] (filter (\<lambda>p. strip E p \<noteq> []) ps)) > 15000"
  shows "extract_text_from_docx E f =
     take 15000 (join [0xA] (filter (\<lambda>p. strip E p \<noteq> []) ps)) @ omitted_marker"
  using assms by (simp add: extract_text_from_docx_def Let_def truncate_long strip_marked)

lemma pdf_bound:
  "length (extract_text_from_pdf E f) \<le> 15000 + length omitted_marker
   \<or> (\<exists>e. extract_text_from_pdf E f = pdf_error_msg e)"
proof (cases "pdf_pages f")
  case (Inl e)
  then show ?thesis
    by (auto simp: extract_text_from_pdf_def no_pypdf2_msg_def asc_def)
next
  case (Inr ps)
  have "length scanned_pdf_msg \<le> 15000 + length omitted_marker"
    by (simp add: scanned_pdf_msg_def asc_def)
  with Inr truncate_length[of "join [0xA] (filter (\<lambda>p. p \<noteq> []) ps)"] show ?thesis
    by (auto simp: extract_text_from_pdf_def Let_def no_pypdf2_msg_def asc_def)
qed

lemma docx_bound:
  "length (extract_text_from_docx E f) \<le> 15000 + length omitted_marker
   \<or> (\<exists>e. extract_text_from_docx E f = docx_error_msg e)"
proof (cases "docx_paragraphs f")
  case (Inl e)
  then show ?thesis
    by (auto simp: extract_text_from_docx_def no_docx_msg_def asc_def)
next
  case (Inr ps)
  have "length empty_docx_msg \<le> 15000 + length omitted_marker"
    by (simp add: empty_docx_msg_def asc_def)
  with Inr truncate_length[of "join [0xA] (filter (\<lambda>p. strip E p \<noteq> []) ps)"] show ?thesis
    by (auto simp: extract_text_from_docx_def Let_def no_docx_msg_def asc_def)
qed

lemma extract_text_bound:
  "length (extract_text E f) \<le> 15000 + length omitted_marker
   \<or> (\<exists>e. extract_text E f = pdf_error_msg e)
   \<or> (\<exists>e. extract_text E f = docx_error_msg e)
   \<or> extract_text E f = unsupported_msg (lower E (suffix_of (name f)))"
proof -
  have "length doc_msg \<le> 15000 + length omitted_marker"
    by (simp add: doc_msg_def asc_def)
  moreover have "length txt_error_msg \<le> 15000 + length omitted_marker"
    by (simp add: txt_error_msg_def asc_def)
  ultimately show ?thesis
    using pdf_bound[of E f] docx_bound[of E f]
    by (auto simp: extract_text_def Let_def split: sum.splits)
qed

lemma bracketed_messages:
  "bracketed (pdf_error_msg e)" "bracketed (docx_error_msg e)" "bracketed (unsupported_msg sfx)"
  by (simp_all add: bracketed_iff pdf_error_msg_def docx_error_msg_def unsupported_msg_def asc_def)

lemma sent_content:
  assumes "(nm, c) \<in> set (snd (process_file E f))"
  shows "c = extract_text E f \<and> \<not> bracketed c"
  using assms
  by (auto simp: process_file_def Let_def bracketed_def split: if_splits sum.splits)

lemma sent_bound:
  assumes "(nm, c) \<in> set (snd (process_file E f))"
  shows "length c \<le> 15000 + length omitted_marker"
  using sent_content[OF assms] extract_text_bound[of E f] bracketed_messages
  by metis

subsection \<open>The length of the extracted text\<close>

text \<open>
  Claim C8, as amended. The text of a PDF or of a DOCX that is longer than 15000
  characters is cut to its first 15000 characters and the marker of 13 characters, and a
  text file gives its first 15000 characters at most. The result of \<open>extract_text\<close> has
  15013 characters at most, unless it is one of the placeholders in brackets that hold the
  message of an exception or the suffix of the file; those are as long as what they hold.
  They never reach the service: every content sent to it has 15013 characters at most.
\<close>

theorem text_length_bound:
  "length omitted_marker = 13
   \<and> (length t > 15000 \<longrightarrow> truncate_text t = take 15000 t @ omitted_marker)
   \<and> (pypdf2_installed E \<and> pdf_pages f = Inr ps
        \<and> length (join [0xA] (filter (\<lambda>p. p \<noteq> []) ps)) > 15000 \<longrightarrow>
        extract_text_from_pdf E f =
          take 15000 (join [0xA] (filter (\<lambda>p. p \<noteq> []) ps)) @ omitted_marker)
   \<and> (docx_installed E \<and> docx_paragraphs f = Inr qs
        \<and> length (join [0xA] (filter (\<lambda>p. strip E p \<noteq> []) qs)) > 15000 \<longrightarrow>
        extract_text_from_docx E f =
          take 15000 (join [0xA] (filter (\<lambda>p. strip E p \<noteq> []) qs)) @ omitted_marker)
   \<and> (lower E (suffix_of (name f)) = asc ''.txt'' \<and> txt_content f = Inr body \<longrightarrow>
        extract_text E f = take 15000 body)
   \<and> (length (extract_text E f) \<le> 15000 + length omitted_marker
        \<or> (\<exists>e. extract_text E f = pdf_error_msg e)
        \<or> (\<exists>e. extract_text E f = docx_error_msg e)
        \<or> extract_text E f = unsupported_msg (lower E (suffix_of (name f))))
   \<and> (\<forall>nm c. (nm, c) \<in> set (snd (process_file E f)) \<longrightarrow>
        length c \<le> 15000 + length omitted_marker)"
proof (intro conjI impI allI)
  show "length omitted_marker = 13" by (rule omitted_marker_length)
  show "length (extract_text E f) \<le> 15000 + length omitted_marker
        \<or> (\<exists>e. extract_text E f = pdf_error_msg e)
        \<or> (\<exists>e. extract_text E f = docx_error_msg e)
        \<or> extract_text E f = unsupported_msg (lower E (suffix_of (name f)))"
    by (rule extract_text_bound)
  show "extract_text E f = take 15000 body"
    if "lower E (suffix_of (name f)) = asc ''.txt'' \<and> txt_content f = Inr body"
    using that by (simp add: extract_text_def asc_def)
qed (simp_all add: truncate_long pdf_long docx_long sent_bound)

theorem text_length_bound_witness:
  "truncate_text (replicate 15001 97) = replicate 15000 97 @ omitted_marker
   \<and> extract_text_from_pdf
       \<lparr>pypdf2_installed = True, docx_installed = True, lower_table = (\<lambda>s. s),
        space_table = (\<lambda>c. False), chat = (\<lambda>nm content. Inr (Some (asc ''## summary'')))\<rparr>
       \<lparr>parent = asc ''/d'', name = asc ''long.pdf'', pdf_pages = Inr [replicate 15001 97],
        docx_paragraphs = Inr [replicate 15001 97], txt_content = Inr (replicate 15001 97)\<rparr>
       = replicate 15000 97 @ omitted_marker
   \<and> extract_text_from_docx
       \<lparr>pypdf2_installed = True, docx_installed = True, lower_table = (\<lambda>s. s),
        space_table = (\<lambda>c. False), chat = (\<lambda>nm content. Inr (Some (asc ''## summary'')))\<rparr>
       \<lparr>parent = asc ''/d'', name = asc ''long.pdf'', pdf_pages = Inr [replicate 15001 97],
        docx_paragraphs = Inr [replicate 15001 97], txt_content = Inr (replicate 15001 97)\<rparr>
       = replicate 15000 97 @ omitted_marker
   \<and> extract_text
       \<lparr>pypdf2_installed = True, docx_installed = True, lower_table = (\<lambda>s. s),
        space_table = (\<lambda>c. False), chat = (\<lambda>nm content. Inr (Some (asc ''## summary'')))\<rparr>
       \<lparr>parent = asc ''/d'', name = asc ''long.txt'', pdf_pages = Inr [],
        docx_paragraphs = Inr [], txt_content = Inr (replicate 15001 97)\<rparr>
       = replicate 15000 97
   \<and> length (replicate 15000 (97::nat)) \<le> 15000 + length omitted_marker"
proof -
  let ?E = "\<lparr>pypdf2_installed = True, docx_installed = True, lower_table = (\<lambda>s. s),
        space_table = (\<lambda>c. False), chat = (\<lambda>nm content. Inr (Some (asc ''## summary'')))\<rparr>"
  let ?f = "\<lparr>parent = asc ''/d'', name = asc ''long.pdf'', pdf_pages = Inr [replicate 15001 97],
        docx_paragraphs = Inr [replicate 15001 97], txt_content = Inr (replicate 15001 97)\<rparr>"
  let ?g = "\<lparr>parent = asc ''/d'', name = asc ''long.txt'', pdf_pages = Inr [],
        docx_paragraphs = Inr [], txt_content = Inr (replicate 15001 97)\<rparr>"
  let ?t = "replicate 15001 (97::nat)"
  note T = text_length_bound[where E = ?E and f = ?f and t = ?t and ps = "[?t]" and qs = "[?t]"]
  note U = text_length_bound[where E = ?E and f = ?g and body = ?t]
  have ne: "?t \<noteq> []" by (simp add: replicate_empty)
  have sp: "strip ?E ?t \<noteq> []"
    unfolding strip_nonempty by (simp add: isspace_def)
  have h1: "15000 < length ?t" by simp
  have h2: "pypdf2_installed ?E \<and> pdf_pages ?f = Inr [?t]
      \<and> 15000 < length (join [0xA] (filter (\<lambda>p. p \<noteq> []) [?t]))"
    using ne by simp
  have h3: "docx_installed ?E \<and> docx_paragraphs ?f = Inr [?t]
      \<and> 15000 < length (join [0xA] (filter (\<lambda>p. strip ?E p \<noteq> []) [?t]))"
    using sp by simp
  have h4: "lower ?E (suffix_of (name ?g)) = asc ''.txt'' \<and> txt_content ?g = Inr ?t"
    by (simp add: lower_def suffix_of_def rfind_dot_def asc_def)
  have tk: "take 15000 ?t = replicate 15000 97" by (simp)
  have c1: "truncate_text ?t = take 15000 ?t @ omitted_marker"
    by (rule T[THEN conjunct2, THEN conjunct1, THEN mp, OF h1])
  have c2: "extract_text_from_pdf ?E ?f =
      take 15000 (join [0xA] (filter (\<lambda>p. p \<noteq> []) [?t])) @ omitted_marker"
    by (rule T[THEN conjunct2, THEN conjunct2, THEN conjunct1, THEN mp, OF h2])
  have c3: "extract_text_from_docx ?E ?f =
      take 15000 (join [0xA] (filter (\<lambda>p. strip ?E p \<noteq> []) [?t])) @ omitted_marker"
    by (rule T[THEN conjunct2, THEN conjunct2, THEN conjunct2, THEN conjunct1, THEN mp, OF h3])
  have c4: "extract_text ?E ?g = take 15000 ?t"
    by (rule U[THEN conjunct2, THEN conjunct2, THEN conjunct2, THEN conjunct2, THEN conjunct1,
          THEN mp, OF h4])
  have f1: "filter (\<lambda>p. p \<noteq> []) [?t] = [?t]" using ne by simp
  have f2: "filter (\<lambda>p. strip ?E p \<noteq> []) [?t] = [?t]" using sp by simp
  have nb: "\<not> startswith (replicate 15000 97) (asc ''['')"
    by (simp add: startswith_def asc_def min_def)
  have h5: "(asc ''long.txt'', replicate 15000 97) \<in> set (snd (process_file ?E ?g))"
    using nb by (simp add: process_file_def c4 tk)
  have c5: "length (replicate 15000 (97::nat)) \<le> 15000 + length omitted_marker"
    by (rule U[THEN conjunct2, THEN conjunct2, THEN conjunct2, THEN conjunct2, THEN conjunct2,
          THEN conjunct2, THEN spec, THEN spec, THEN mp, OF h5])
  from c1 c2 c3 c4 c5 show ?thesis
    unfolding f1 f2 join.simps tk by blast
qed

text \<open>
  The claim as stated fails for a PDF whose reading raises an exception with a message
  of 15001 characters: the placeholder returned has 15015.
\<close>

theorem text_length_bound_counterexample:
  "\<not> length (extract_text
       \<lparr>pypdf2_installed = True, docx_installed = True, lower_table = (\<lambda>s. s),
        space_table = (\<lambda>c. False), chat = (\<lambda>nm content. Inr (Some (asc ''## summary'')))\<rparr>
       \<lparr>parent = asc ''/d'', name = asc ''scan.pdf'',
        pdf_pages = Inl (Exception (replicate 15001 97)),
        docx_paragraphs = Inr [], txt_content = Inr []\<rparr>)
     \<le> 15000 + length omitted_marker"
  by (simp add: extract_text_def extract_text_from_pdf_def pdf_error_msg_def lower_def
        suffix_of_def rfind_dot_def asc_def omitted_marker_def)

lemma report_process_folder: "prefix (report st) (report (snd (process_folder E fo st)))"
  by (simp add: process_folder_def Let_def split: option.splits sum.splits)

lemma report_folder_loop: "prefix (report st) (report (snd (folder_loop E dir nms st)))"
proof (induction nms arbitrary: st)
  case Nil
  then show ?case by simp
next
  case (Cons nm nms)
  show ?case
  proof (cases "dir nm")
    case (Inl e)
    then show ?thesis by simp
  next
    case (Inr found)
    show ?thesis
    proof (cases found)
      case None
      with Inr Cons.IH[of "st\<lparr>skipped := skipped st @ [nm]\<rparr>"] show ?thesis by simp
    next
      case (Some fo)
      obtain x r where pf: "process_folder E (Inr (Some fo)) (run.truncate st) = (x, r)"
        by (cases "process_folder E (Inr (Some fo)) (run.truncate st)") auto
      let ?st = "st\<lparr>report := report r, api_calls := api_calls r, processed := processed st @ [nm]\<rparr>"
      have step: "prefix (report st) (report ?st)"
        using report_process_folder[of "run.truncate st" E "Inr (Some fo)"] pf
        by (simp add: run.truncate_def)
      show ?thesis
      proof (cases x)
        case None
        have "prefix (report ?st) (report (snd (folder_loop E dir nms ?st)))" by (rule Cons.IH)
        with step have "prefix (report st) (report (snd (folder_loop E dir nms ?st)))"
          by (rule prefix_order.trans)
        with Inr Some pf None show ?thesis by simp
      next
        case (Some e)
        with Inr \<open>found = Some fo\<close> pf step show ?thesis by simp
      qed
    qed
  qed
qed

subsection \<open>Writes to the report\<close>

text \<open>
  Claim C7, as amended. Every write of \<open>process_folder\<close> keeps what the report holds and
  adds at its end, and so does the loop over the folders, also when an exception ends
  them. The first write of main opens the file with mode \<open>w\<close>: it replaces whatever
  the file held by the head of the report, so that the report of a run begins with that
  head and does not depend on the content the file had before the run.
\<close>

theorem report_writes:
  "prefix (report st) (report (snd (process_folder E fo st)))
   \<and> prefix (report ms) (report (snd (folder_loop E dir nms ms)))
   \<and> prefix (report_head now) (report (snd (main E now dir argv old)))
   \<and> main E now dir argv old = main E now dir argv old'"
  using report_folder_loop[of "\<lparr>report = report_head now, api_calls = [], processed = [], skipped = []\<rparr>"]
  by (simp add: report_process_folder report_folder_loop main_def)

theorem report_writes_witness:
  "prefix (report_head (asc ''2026-11-04 10:00:00''))
     (report (snd (main
       \<lparr>pypdf2_installed = True, docx_installed = True, lower_table = (\<lambda>s. s),
        space_table = (\<lambda>c. False), chat = (\<lambda>nm content. Inr (Some (asc ''## summary'')))\<rparr>
       (asc ''2026-11-04 10:00:00'') (\<lambda>nm. Inr None) [asc ''process_files.py'']
       (asc ''notes of the last run''))))"
  by (rule report_writes[THEN conjunct2, THEN conjunct2, THEN conjunct1])

text \<open>
  The claim as stated fails for the first write of main: the notes that the file held
  before the run are not at the start of the report after it.
\<close>

theorem report_writes_counterexample:
  "\<not> prefix (asc ''notes of the last run'')
     (report (snd (main
       \<lparr>pypdf2_installed = True, docx_installed = True, lower_table = (\<lambda>s. s),
        space_table = (\<lambda>c. False), chat = (\<lambda>nm content. Inr (Some (asc ''## summary'')))\<rparr>
       (asc ''2026-11-04 10:00:00'') (\<lambda>nm. Inr None) [asc ''process_files.py'']
       (asc ''notes of the last run''))))"
  by (simp add: main_def chosen_folders_def default_folders_def report_head_def asc_def)

lemma first_none_None: "first_none i rs = None \<longleftrightarrow> (\<forall>r\<in>set rs. r \<noteq> None)"
proof (induction rs arbitrary: i)
  case Nil
  then show ?case by simp
next
  case (Cons r rs)
  then show ?case by (cases r) auto
qed

lemma py_join_texts:
  "\<forall>r\<in>set rs. r \<noteq> None \<Longrightarrow> py_join sep rs = Inr (join sep (map the rs))"
proof -
  assume a: "\<forall>r\<in>set rs. r \<noteq> None"
  then have "List.map_filter (\<lambda>r. r) rs = map the rs"
    by (induction rs) (auto simp: List.map_filter_simps)
  with a show ?thesis by (simp add: py_join_def first_none_None[THEN iffD2])
qed

lemma process_folder_completes:
  assumes "\<forall>f\<in>set (folder_files fo). fst (process_file E f) \<noteq> None"
  shows "fst (process_folder E (Inr (Some fo)) st) = None"
proof -
  have "\<forall>r\<in>set (map fst (map (process_file E) (folder_files fo))). r \<noteq> None"
    using assms by simp
  then have "py_join [0xA] (map fst (map (process_file E) (folder_files fo)))
      = Inr (join [0xA] (map the (map fst (map (process_file E) (folder_files fo)))))"
    by (rule py_join_texts)
  then show ?thesis by (simp add: process_folder_def Let_def)
qed

lemma folder_loop_step:
  "folder_loop E dir (nm # nms) st =
     (case dir nm of
        Inl e \<Rightarrow> (Some e, st)
      | Inr None \<Rightarrow> folder_loop E dir nms (st\<lparr>skipped := skipped st @ [nm]\<rparr>)
      | Inr (Some fo) \<Rightarrow>
          (case process_folder E (Inr (Some fo)) (run.truncate st) of
             (Some e, r) \<Rightarrow>
               (Some e, st\<lparr>report := report r, api_calls := api_calls r,
                           processed := processed st @ [nm]\<rparr>)
           | (None, r) \<Rightarrow>
               folder_loop E dir nms
                 (st\<lparr>report := report r, api_calls := api_calls r,
                     processed := processed st @ [nm]\<rparr>)))"
  by simp

lemma folder_loop_cases:
  obtains (raises) e where "dir nm = Inl e" "folder_loop E dir (nm # nms) st = (Some e, st)"
  | (missing) "dir nm = Inr None"
      "folder_loop E dir (nm # nms) st = folder_loop E dir nms (st\<lparr>skipped := skipped st @ [nm]\<rparr>)"
  | (fails) fo :: folder and e :: exn and r :: run where "dir nm = Inr (Some fo)"
      "folder_loop E dir (nm # nms) st =
         (Some e, st\<lparr>report := report r, api_calls := api_calls r, processed := processed st @ [nm]\<rparr>)"
  | (goes_on) fo :: folder and r :: run where "dir nm = Inr (Some fo)"
      "folder_loop E dir (nm # nms) st =
         folder_loop E dir nms
           (st\<lparr>report := report r, api_calls := api_calls r, processed := processed st @ [nm]\<rparr>)"
proof (cases "dir nm")
  case (Inl e)
  then show ?thesis by (intro raises[of e]) (simp_all add: folder_loop_step del: folder_loop.simps)
next
  case (Inr found)
  show ?thesis
  proof (cases found)
    case None
    with Inr show ?thesis by (intro missing) (simp_all add: folder_loop_step del: folder_loop.simps)
  next
    case (Some fo)
    obtain x r where pf: "process_folder E (Inr (Some fo)) (run.truncate st) = (x, r)"
      by (cases "process_folder E (Inr (Some fo)) (run.truncate st)") auto
    show ?thesis
    proof (cases x)
      case None
      with Inr Some pf show ?thesis
        by (intro goes_on[of fo r]) (simp_all add: folder_loop_step del: folder_loop.simps)
    next
      case (Some e)
      with Inr \<open>found = Some fo\<close> pf show ?thesis
        by (intro fails[of fo e r]) (simp_all add: folder_loop_step del: folder_loop.simps)
    qed
  qed
qed

lemma processed_prefix:
  "prefix (processed (snd (folder_loop E dir nms st))) (processed st @ filter (folder_there dir) nms)"
proof (induction nms arbitrary: st)
  case Nil
  then show ?case by simp
next
  case (Cons nm nms)
  show ?case
  proof (cases rule: folder_loop_cases[of dir nm E nms st])
    case (raises e)
    then show ?thesis by simp
  next
    case missing
    with Cons.IH[of "st\<lparr>skipped := skipped st @ [nm]\<rparr>"] show ?thesis
      by (simp add: folder_there_def)
  next
    case (fails fo e r)
    then show ?thesis by (simp add: folder_there_def)
  next
    case (goes_on fo r)
    with Cons.IH[of "st\<lparr>report := report r, api_calls := api_calls r, processed := processed st @ [nm]\<rparr>"]
    show ?thesis by (simp add: folder_there_def)
  qed
qed

lemma skipped_prefix:
  "prefix (skipped (snd (folder_loop E dir nms st))) (skipped st @ filter (folder_missing dir) nms)"
proof (induction nms arbitrary: st)
  case Nil
  then show ?case by simp
next
  case (Cons nm nms)
  show ?case
  proof (cases rule: folder_loop_cases[of dir nm E nms st])
    case (raises e)
    then show ?thesis by simp
  next
    case missing
    with Cons.IH[of "st\<lparr>skipped := skipped st @ [nm]\<rparr>"] show ?thesis
      by (simp add: folder_missing_def)
  next
    case (fails fo e r)
    then show ?thesis by (simp add: folder_missing_def)
  next
    case (goes_on fo r)
    with Cons.IH[of "st\<lparr>report := report r, api_calls := api_calls r, processed := processed st @ [nm]\<rparr>"]
    show ?thesis by (simp add: folder_missing_def)
  qed
qed

lemma folder_loop_done:
  "fst (folder_loop E dir nms st) = None \<Longrightarrow>
   processed (snd (folder_loop E dir nms st)) = processed st @ filter (folder_there dir) nms
     \<and> skipped (snd (folder_loop E dir nms st)) = skipped st @ filter (folder_missing dir) nms"
proof (induction nms arbitrary: st)
  case Nil
  then show ?case by simp
next
  case (Cons nm nms)
  show ?case
  proof (cases rule: folder_loop_cases[of dir nm E nms st])
    case (raises e)
    with Cons.prems show ?thesis by simp
  next
    case missing
    with Cons.prems Cons.IH[of "st\<lparr>skipped := skipped st @ [nm]\<rparr>"] show ?thesis
      by (simp add: folder_there_def folder_missing_def)
  next
    case (fails fo e r)
    with Cons.prems show ?thesis by simp
  next
    case (goes_on fo r)
    with Cons.prems
      Cons.IH[of "st\<lparr>report := report r, api_calls := api_calls r, processed := processed st @ [nm]\<rparr>"]
    show ?thesis by (simp add: folder_there_def folder_missing_def)
  qed
qed

lemma folder_loop_completes:
  assumes "\<forall>nm\<in>set nms. case dir nm of
               Inl e \<Rightarrow> False
             | Inr None \<Rightarrow> True
             | Inr (Some fo) \<Rightarrow> (\<forall>f\<in>set (folder_files fo). fst (process_file E f) \<noteq> None)"
  shows "fst (folder_loop E dir nms st) = None"
  using assms
proof (induction nms arbitrary: st)
  case Nil
  then show ?case by simp
next
  case (Cons nm nms)
  from Cons.prems have rest: "\<forall>nm\<in>set nms. case dir nm of
               Inl e \<Rightarrow> False
             | Inr None \<Rightarrow> True
             | Inr (Some fo) \<Rightarrow> (\<forall>f\<in>set (folder_files fo). fst (process_file E f) \<noteq> None)"
    by simp
  from Cons.prems have here: "case dir nm of
               Inl e \<Rightarrow> False
             | Inr None \<Rightarrow> True
             | Inr (Some fo) \<Rightarrow> (\<forall>f\<in>set (folder_files fo). fst (process_file E f) \<noteq> None)"
    by simp
  show ?case
  proof (cases "dir nm")
    case (Inl e)
    with here show ?thesis by simp
  next
    case (Inr found)
    show ?thesis
    proof (cases found)
      case None
      with Inr Cons.IH[OF rest] show ?thesis
        by (simp add: folder_loop_step del: folder_loop.simps)
    next
      case (Some fo)
      with Inr here have "\<forall>f\<in>set (folder_files fo). fst (process_file E f) \<noteq> None"
        by simp
      then have "fst (process_folder E (Inr (Some fo)) (run.truncate st)) = None"
        by (rule process_folder_completes)
      then obtain r where "process_folder E (Inr (Some fo)) (run.truncate st) = (None, r)"
        by (cases "process_folder E (Inr (Some fo)) (run.truncate st)") auto
      with Inr Some Cons.IH[OF rest] show ?thesis
        by (simp add: folder_loop_step del: folder_loop.simps)
    qed
  qed
qed

lemma chosen_folders_script: "chosen_folders [script] = default_folders"
  by (simp add: chosen_folders_def)

subsection \<open>The folders of a run\<close>

text \<open>
  Claim C6, as amended. Without arguments the loop of main goes through the fixed list
  of ten folder names, from the first to the tenth, and with arguments through the names
  given, in the order of the arguments. A run that no exception ends gives to
  \<open>process_folder\<close> exactly those names of the list under which a folder exists, in that
  order, and skips with a line on the console exactly those under which there is none;
  when a folder exists under every name, the folders processed are the names of the list.
  Such a run is one in which \<open>exists()\<close> never raises and no reply of the service is
  empty. In every run the folders processed are an initial part of the existing ones of
  the list, and the names skipped an initial part of the missing ones.
\<close>

theorem folders_of_a_run:
  "prefix (processed (snd (main E now dir argv old))) (filter (folder_there dir) (chosen_folders argv))
   \<and> prefix (skipped (snd (main E now dir argv old))) (filter (folder_missing dir) (chosen_folders argv))
   \<and> (fst (main E now dir argv old) = None \<longrightarrow>
        processed (snd (main E now dir argv old)) = filter (folder_there dir) (chosen_folders argv)
        \<and> skipped (snd (main E now dir argv old)) = filter (folder_missing dir) (chosen_folders argv))
   \<and> ((\<forall>nm\<in>set (chosen_folders argv). case dir nm of
               Inl e \<Rightarrow> False
             | Inr None \<Rightarrow> True
             | Inr (Some fo) \<Rightarrow> (\<forall>f\<in>set (folder_files fo). fst (process_file E f) \<noteq> None))
        \<longrightarrow> fst (main E now dir argv old) = None)
   \<and> chosen_folders [script] = default_folders
   \<and> (args \<noteq> [] \<longrightarrow> chosen_folders (script # args) = args)
   \<and> default_folders =
       [asc ''1_'' @ [0x5B66, 0x4F1A, 0x767A, 0x8868, 0x8AD6, 0x6587],
        asc ''2_'' @ [0x4F53, 0x9A13, 0x8AC7, 0x63A8, 0x85A6, 0x6587],
        asc ''3_'' @ [0x89E3, 0x8AAC, 0x539F, 0x7A3F],
        asc ''4_'' @ [0x5354, 0x4F1A, 0x8A8C, 0x8A73, 0x7D30],
        asc ''5_'' @ [0x30B9, 0x30BF, 0x30FC, 0x30E9, 0x30A4, 0x30C8, 0x30D2, 0x30FC, 0x30EA, 0x30F3, 0x30B0],
        asc ''6_CD_'' @ [0x66F8, 0x7C4D, 0x95A2, 0x9023],
        asc ''7_'' @ [0x30E1, 0x30C7, 0x30A3, 0x30A2, 0x63B2, 0x8F09],
        asc ''8_'' @ [0x4F53, 0x611F, 0x97F3, 0x97FF],
        asc ''9_'' @ [0x81EA, 0x7136, 0x97F3, 0x30A8, 0x30D3, 0x30C7, 0x30F3, 0x30B9],
        asc ''10_'' @ [0x305D, 0x306E, 0x4ED6]]
   \<and> length default_folders = 10
   \<and> (fst (main E now dir argv old) = None \<and> (\<forall>nm\<in>set (chosen_folders argv). folder_there dir nm)
        \<longrightarrow> processed (snd (main E now dir argv old)) = chosen_folders argv)"
proof (intro conjI impI)
  let ?st = "\<lparr>report = report_head now, api_calls = [], processed = [], skipped = []\<rparr>"
  have m: "main E now dir argv old = folder_loop E dir (chosen_folders argv) ?st"
    by (simp add: main_def)
  show "prefix (processed (snd (main E now dir argv old))) (filter (folder_there dir) (chosen_folders argv))"
    using processed_prefix[of E dir "chosen_folders argv" ?st] unfolding m by simp
  show "prefix (skipped (snd (main E now dir argv old))) (filter (folder_missing dir) (chosen_folders argv))"
    using skipped_prefix[of E dir "chosen_folders argv" ?st] unfolding m by simp
  show "processed (snd (main E now dir argv old)) = filter (folder_there dir) (chosen_folders argv)"
    if "fst (main E now dir argv old) = None"
    using that folder_loop_done[of E dir "chosen_folders argv" ?st] unfolding m by simp
  show "skipped (snd (main E now dir argv old)) = filter (folder_missing dir) (chosen_folders argv)"
    if "fst (main E now dir argv old) = None"
    using that folder_loop_done[of E dir "chosen_folders argv" ?st] unfolding m by simp
  show "fst (main E now dir argv old) = None"
    if "\<forall>nm\<in>set (chosen_folders argv). case dir nm of
               Inl e \<Rightarrow> False
             | Inr None \<Rightarrow> True
             | Inr (Some fo) \<Rightarrow> (\<forall>f\<in>set (folder_files fo). fst (process_file E f) \<noteq> None)"
    unfolding m using that by (rule folder_loop_completes)
  show "chosen_folders [script] = default_folders"
    by (rule chosen_folders_script)
  show "chosen_folders (script # args) = args" if "args \<noteq> []"
    using that by (simp add: chosen_folders_def)
  show "default_folders =
       [asc ''1_'' @ [0x5B66, 0x4F1A, 0x767A, 0x8868, 0x8AD6, 0x6587],
        asc ''2_'' @ [0x4F53, 0x9A13, 0x8AC7, 0x63A8, 0x85A6, 0x6587],
        asc ''3_'' @ [0x89E3, 0x8AAC, 0x539F, 0x7A3F],
        asc ''4_'' @ [0x5354, 0x4F1A, 0x8A8C, 0x8A73, 0x7D30],
        asc ''5_'' @ [0x30B9, 0x30BF, 0x30FC, 0x30E9, 0x30A4, 0x30C8, 0x30D2, 0x30FC, 0x30EA, 0x30F3, 0x30B0],
        asc ''6_CD_'' @ [0x66F8, 0x7C4D, 0x95A2, 0x9023],
        asc ''7_'' @ [0x30E1, 0x30C7, 0x30A3, 0x30A2, 0x63B2, 0x8F09],
        asc ''8_'' @ [0x4F53, 0x611F, 0x97F3, 0x97FF],
        asc ''9_'' @ [0x81EA, 0x7136, 0x97F3, 0x30A8, 0x30D3, 0x30C7, 0x30F3, 0x30B9],
        asc ''10_'' @ [0x305D, 0x306E, 0x4ED6]]"
    by (simp only: default_folders_def)
  show "length default_folders = 10"
    by (simp add: default_folders_def)
  show "processed (snd (main E now dir argv old)) = chosen_folders argv"
    if "fst (main E now dir argv old) = None \<and> (\<forall>nm\<in>set (chosen_folders argv). folder_there dir nm)"
    using that folder_loop_done[of E dir "chosen_folders argv" ?st] unfolding m by simp
qed

lemma main_loop_eq:
  "main E now dir argv old =
     folder_loop E dir (chosen_folders argv)
       \<lparr>report = report_head now, api_calls = [], processed = [], skipped = []\<rparr>"
  by (simp add: main_def)

lemma empty_folder_files: "folder_files \<lparr>folder_name = nm, entries = []\<rparr> = []"
  by (simp add: folder_files_def glob_def)

theorem folders_of_a_run_witness:
  "chosen_folders [asc ''process_files.py'', asc ''b'', asc ''a''] = [asc ''b'', asc ''a'']
   \<and> fst (main
       \<lparr>pypdf2_installed = True, docx_installed = True, lower_table = (\<lambda>s. s),
        space_table = (\<lambda>c. False), chat = (\<lambda>nm content. Inr (Some (asc ''## summary'')))\<rparr>
       (asc ''2026-11-04 10:00:00'') (\<lambda>nm. Inr (Some \<lparr>folder_name = nm, entries = []\<rparr>))
       [asc ''process_files.py'', asc ''b'', asc ''a''] []) = None
   \<and> processed (snd (main
       \<lparr>pypdf2_installed = True, docx_installed = True, lower_table = (\<lambda>s. s),
        space_table = (\<lambda>c. False), chat = (\<lambda>nm content. Inr (Some (asc ''## summary'')))\<rparr>
       (asc ''2026-11-04 10:00:00'') (\<lambda>nm. Inr (Some \<lparr>folder_name = nm, entries = []\<rparr>))
       [asc ''process_files.py'', asc ''b'', asc ''a''] [])) = [asc ''b'', asc ''a'']
   \<and> skipped (snd (main
       \<lparr>pypdf2_installed = True, docx_installed = True, lower_table = (\<lambda>s. s),
        space_table = (\<lambda>c. False), chat = (\<lambda>nm content. Inr (Some (asc ''## summary'')))\<rparr>
       (asc ''2026-11-04 10:00:00'')
       (\<lambda>nm. if nm = asc ''a'' then Inr None else Inr (Some \<lparr>folder_name = nm, entries = []\<rparr>))
       [asc ''process_files.py'', asc ''b'', asc ''a''] [])) = [asc ''a'']"
proof -
  let ?E = "\<lparr>pypdf2_installed = True, docx_installed = True, lower_table = (\<lambda>s. s),
        space_table = (\<lambda>c. False), chat = (\<lambda>nm content. Inr (Some (asc ''## summary'')))\<rparr>"
  let ?now = "asc ''2026-11-04 10:00:00''"
  let ?dir = "\<lambda>nm. Inr (Some \<lparr>folder_name = nm, entries = []\<rparr>) :: exn + folder option"
  let ?dir2 = "\<lambda>nm. if nm = asc ''a'' then Inr None
                else Inr (Some \<lparr>folder_name = nm, entries = []\<rparr>) :: exn + folder option"
  let ?argv = "[asc ''process_files.py'', asc ''b'', asc ''a'']"
  note T = folders_of_a_run[where E = ?E and now = ?now and dir = ?dir
      and argv = ?argv and old = "[]" and script = "asc ''process_files.py''"
      and args = "[asc ''b'', asc ''a'']"]
  note U = folders_of_a_run[where E = ?E and now = ?now and dir = ?dir2
      and argv = ?argv and old = "[]"]
  have h1: "[asc ''b'', asc ''a''] \<noteq> []" by simp
  have c1: "chosen_folders ?argv = [asc ''b'', asc ''a'']"
    by (rule T[THEN conjunct2, THEN conjunct2, THEN conjunct2, THEN conjunct2, THEN conjunct2,
          THEN conjunct1, THEN mp, OF h1])
  have h2: "\<forall>nm\<in>set (chosen_folders ?argv). case ?dir nm of
               Inl e \<Rightarrow> False
             | Inr None \<Rightarrow> True
             | Inr (Some fo) \<Rightarrow> (\<forall>f\<in>set (folder_files fo). fst (process_file ?E f) \<noteq> None)"
    unfolding c1 by (simp add: empty_folder_files)
  have h2': "\<forall>nm\<in>set (chosen_folders ?argv). case ?dir2 nm of
               Inl e \<Rightarrow> False
             | Inr None \<Rightarrow> True
             | Inr (Some fo) \<Rightarrow> (\<forall>f\<in>set (folder_files fo). fst (process_file ?E f) \<noteq> None)"
    unfolding c1 by (simp add: empty_folder_files asc_def)
  have c2: "fst (main ?E ?now ?dir ?argv []) = None"
    by (rule T[THEN conjunct2, THEN conjunct2, THEN conjunct2, THEN conjunct1, THEN mp, OF h2])
  have c2': "fst (main ?E ?now ?dir2 ?argv []) = None"
    by (rule U[THEN conjunct2, THEN conjunct2, THEN conjunct2, THEN conjunct1, THEN mp, OF h2'])
  have h3: "fst (main ?E ?now ?dir ?argv []) = None
      \<and> (\<forall>nm\<in>set (chosen_folders ?argv). folder_there ?dir nm)"
    using c2 by (simp add: folder_there_def)
  have c3: "processed (snd (main ?E ?now ?dir ?argv [])) = chosen_folders ?argv"
    by (rule T[THEN conjunct2, THEN conjunct2, THEN conjunct2, THEN conjunct2, THEN conjunct2,
          THEN conjunct2, THEN conjunct2, THEN conjunct2, THEN mp, OF h3])
  have c4: "processed (snd (main ?E ?now ?dir2 ?argv [])) = filter (folder_there ?dir2) (chosen_folders ?argv)
        \<and> skipped (snd (main ?E ?now ?dir2 ?argv [])) = filter (folder_missing ?dir2) (chosen_folders ?argv)"
    by (rule U[THEN conjunct2, THEN conjunct2, THEN conjunct1, THEN mp, OF c2'])
  have f: "filter (folder_missing ?dir2) [asc ''b'', asc ''a''] = [asc ''a'']"
    by (simp add: folder_missing_def asc_def)
  from c1 c2 c3 c4 f show ?thesis by simp
qed

text \<open>
  The claim as stated fails when a folder of the list is missing: without arguments and
  without the tenth folder, the run completes, nine folders are processed and the tenth
  is skipped.
\<close>

theorem folders_of_a_run_counterexample:
  "fst (main
       \<lparr>pypdf2_installed = True, docx_installed = True, lower_table = (\<lambda>s. s),
        space_table = (\<lambda>c. False), chat = (\<lambda>nm content. Inr (Some (asc ''## summary'')))\<rparr>
       (asc ''2026-11-04 10:00:00'')
       (\<lambda>nm. if nm = asc ''10_'' @ [0x305D, 0x306E, 0x4ED6] then Inr None
             else Inr (Some \<lparr>folder_name = nm, entries = []\<rparr>))
       [asc ''process_files.py''] []) = None
   \<and> length (processed (snd (main
       \<lparr>pypdf2_installed = True, docx_installed = True, lower_table = (\<lambda>s. s),
        space_table = (\<lambda>c. False), chat = (\<lambda>nm content. Inr (Some (asc ''## summary'')))\<rparr>
       (asc ''2026-11-04 10:00:00'')
       (\<lambda>nm. if nm = asc ''10_'' @ [0x305D, 0x306E, 0x4ED6] then Inr None
             else Inr (Some \<lparr>folder_name = nm, entries = []\<rparr>))
       [asc ''process_files.py''] []))) = 9
   \<and> skipped (snd (main
       \<lparr>pypdf2_installed = True, docx_installed = True, lower_table = (\<lambda>s. s),
        space_table = (\<lambda>c. False), chat = (\<lambda>nm content. Inr (Some (asc ''## summary'')))\<rparr>
       (asc ''2026-11-04 10:00:00'')
       (\<lambda>nm. if nm = asc ''10_'' @ [0x305D, 0x306E, 0x4ED6] then Inr None
             else Inr (Some \<lparr>folder_name = nm, entries = []\<rparr>))
       [asc ''process_files.py''] [])) = [asc ''10_'' @ [0x305D, 0x306E, 0x4ED6]]"
proof -
  let ?E = "\<lparr>pypdf2_installed = True, docx_installed = True, lower_table = (\<lambda>s. s),
        space_table = (\<lambda>c. False), chat = (\<lambda>nm content. Inr (Some (asc ''## summary'')))\<rparr>"
  let ?dir = "\<lambda>nm. if nm = asc ''10_'' @ [0x305D, 0x306E, 0x4ED6] then Inr None
             else Inr (Some \<lparr>folder_name = nm, entries = []\<rparr>) :: exn + folder option"
  let ?st = "\<lparr>report = report_head (asc ''2026-11-04 10:00:00''), api_calls = [],
      processed = [], skipped = []\<rparr>"
  have m: "main ?E (asc ''2026-11-04 10:00:00'') ?dir [asc ''process_files.py''] []
      = folder_loop ?E ?dir default_folders ?st"
    unfolding main_loop_eq chosen_folders_script by (rule refl)
  have "\<forall>nm\<in>set default_folders. case ?dir nm of
               Inl e \<Rightarrow> False
             | Inr None \<Rightarrow> True
             | Inr (Some fo) \<Rightarrow> (\<forall>f\<in>set (folder_files fo). fst (process_file ?E f) \<noteq> None)"
    by (simp add: default_folders_def empty_folder_files asc_def)
  then have c: "fst (folder_loop ?E ?dir default_folders ?st) = None"
    by (rule folder_loop_completes)
  have p: "filter (folder_there ?dir) default_folders = take 9 default_folders"
    by (simp add: default_folders_def folder_there_def asc_def)
  have s: "filter (folder_missing ?dir) default_folders = [asc ''10_'' @ [0x305D, 0x306E, 0x4ED6]]"
    by (simp add: default_folders_def folder_missing_def asc_def)
  have l: "length default_folders = 10"
    by (simp add: default_folders_def)
  from folder_loop_done[OF c] c show ?thesis
    unfolding m p s by (simp add: l)
qed

lemma endswith_last: "endswith s e \<Longrightarrow> e \<noteq> [] \<Longrightarrow> last s = last e"
proof -
  assume e: "endswith s e" and ne: "e \<noteq> []"
  then have "s = take (length s - length e) s @ e"
    by (metis append_take_drop_id endswith_def)
  then have "last s = last (take (length s - length e) s @ e)" by simp
  with ne show ?thesis by simp
qed

lemma ext_lasts:
  "last (asc ''.pdf'') = 102" "last (asc ''.docx'') = 120" "last (asc ''.doc'') = 99"
  "last (asc ''.txt'') = 116"
  "asc ''.pdf'' \<noteq> []" "asc ''.docx'' \<noteq> []" "asc ''.doc'' \<noteq> []" "asc ''.txt'' \<noteq> []"
  by (simp_all add: asc_def)

lemma exts_exclusive:
  "endswith nm (asc ''.pdf'') \<Longrightarrow> \<not> endswith nm (asc ''.docx'')"
  "endswith nm (asc ''.pdf'') \<Longrightarrow> \<not> endswith nm (asc ''.doc'')"
  "endswith nm (asc ''.pdf'') \<Longrightarrow> \<not> endswith nm (asc ''.txt'')"
  "endswith nm (asc ''.docx'') \<Longrightarrow> \<not> endswith nm (asc ''.doc'')"
  "endswith nm (asc ''.docx'') \<Longrightarrow> \<not> endswith nm (asc ''.txt'')"
  "endswith nm (asc ''.doc'') \<Longrightarrow> \<not> endswith nm (asc ''.txt'')"
  using endswith_last[of nm "asc ''.pdf''"] endswith_last[of nm "asc ''.docx''"]
    endswith_last[of nm "asc ''.doc''"] endswith_last[of nm "asc ''.txt''"]
  by (auto simp: ext_lasts)

lemma mset_globs:
  "mset (concat (map (glob fo) [asc ''.pdf'', asc ''.docx'', asc ''.doc'', asc ''.txt'']))
     = mset (filter (\<lambda>f. has_ext (name f)) (entries fo))"
proof -
  have "mset (filter (\<lambda>f. endswith (name f) (asc ''.pdf'')) xs)
        + (mset (filter (\<lambda>f. endswith (name f) (asc ''.docx'')) xs)
        + (mset (filter (\<lambda>f. endswith (name f) (asc ''.doc'')) xs)
        + mset (filter (\<lambda>f. endswith (name f) (asc ''.txt'')) xs)))
        = mset (filter (\<lambda>f. has_ext (name f)) xs)" for xs :: "doc_file list"
  proof (induction xs)
    case Nil
    then show ?case by simp
  next
    case (Cons x xs)
    then show ?case
      using exts_exclusive[of "name x"] by (auto simp: has_ext_def)
  qed
  from this[of "entries fo"] show ?thesis unfolding glob_def by simp
qed

lemma mset_folder_files:
  "mset (folder_files fo) = mset (filter (\<lambda>f. has_ext (name f)) (entries fo))"
  by (simp only: folder_files_def mset_sort mset_globs)

lemma sorted_folder_files: "sorted (map name (folder_files fo))"
  by (simp add: folder_files_def)

lemma join_Nil: "join sep [] = []"
  by simp

lemma sections_of_a_folder:
  assumes "\<forall>f\<in>set (folder_files fo). fst (process_file E f) \<noteq> None"
  shows "process_folder E (Inr (Some fo)) st =
     (None, st\<lparr>api_calls := api_calls st @ concat (map (\<lambda>f. snd (process_file E f)) (folder_files fo)),
              report := report st @
                (if folder_files fo = [] then []
                 else folder_header (folder_name fo)
                      @ join [0xA] (map (\<lambda>f. the (fst (process_file E f))) (folder_files fo)))\<rparr>)"
proof -
  have "\<forall>r\<in>set (map fst (map (process_file E) (folder_files fo))). r \<noteq> None"
    using assms by simp
  then have "py_join [0xA] (map fst (map (process_file E) (folder_files fo)))
      = Inr (join [0xA] (map the (map fst (map (process_file E) (folder_files fo)))))"
    by (rule py_join_texts)
  then show ?thesis by (simp add: process_folder_def Let_def comp_def)
qed

lemma first_none_shift: "first_none i rs = Some k \<Longrightarrow> i \<le> k"
proof (induction rs arbitrary: i)
  case Nil
  then show ?case by simp
next
  case (Cons r rs)
  then show ?case by (cases r) (auto dest: Suc_leD)
qed

lemma none_reply_ends_folder:
  assumes "first_none 0 (map (\<lambda>f. fst (process_file E f)) (folder_files fo)) = Some i"
  shows "process_folder E (Inr (Some fo)) st =
     (Some (type_error i),
      st\<lparr>api_calls := api_calls st @ concat (map (\<lambda>f. snd (process_file E f)) (folder_files fo)),
         report := report st @ folder_header (folder_name fo)\<rparr>)"
proof -
  from assms have "folder_files fo \<noteq> []" by auto
  with assms show ?thesis
    by (simp add: process_folder_def Let_def comp_def py_join_def)
qed

subsection \<open>One section for each file\<close>

text \<open>
  Claim C3: for every folder, the report receives one section for each file whose name
  ends with \<open>.pdf\<close>, \<open>.docx\<close>, \<open>.doc\<close> or \<open>.txt\<close>, in ascending order of the file
  names. The code departs from it where the service leaves the content of a reply empty.
  In the folder below, \<open>a.pdf\<close> gets a summary and the reply for \<open>b.txt\<close> is \<open>None\<close>:
  \<open>process_file\<close> returns \<open>None\<close> for it, the join of line 207 raises the TypeError for
  item 1 after the header of the folder has been written, and the report gets the header
  and no section, not even that of \<open>a.pdf\<close>; both files have been sent to the service.
  Where every reply is a text the report gets the sections as the claim says
  (\<open>sections_of_a_folder\<close>, \<open>sorted_folder_files\<close>, \<open>mset_folder_files\<close>).
\<close>

theorem none_reply_loses_sections:
  "process_folder
      \<lparr>pypdf2_installed = True, docx_installed = True, lower_table = (\<lambda>s. s),
       space_table = (\<lambda>c. False),
       chat = (\<lambda>nm content. if nm = asc ''b.txt'' then Inr None else Inr (Some (asc ''## '' @ nm)))\<rparr>
      (Inr (Some \<lparr>folder_name = asc ''talks'', entries =
         [\<lparr>parent = asc ''/d/talks'', name = asc ''b.txt'', pdf_pages = Inr [],
           docx_paragraphs = Inr [], txt_content = Inr (asc ''memo'')\<rparr>,
          \<lparr>parent = asc ''/d/talks'', name = asc ''a.pdf'', pdf_pages = Inr [asc ''page one''],
           docx_paragraphs = Inr [], txt_content = Inr []\<rparr>]\<rparr>))
      \<lparr>report = asc ''# head'', api_calls = []\<rparr>
   = (Some (Exception (asc ''sequence item 1: expected str instance, NoneType found'')),
      \<lparr>report = asc ''# head'' @ folder_header (asc ''talks''),
       api_calls = [(asc ''a.pdf'', asc ''page one''), (asc ''b.txt'', asc ''memo'')]\<rparr>)"
proof -
  let ?E = "\<lparr>pypdf2_installed = True, docx_installed = True, lower_table = (\<lambda>s. s),
       space_table = (\<lambda>c. False),
       chat = (\<lambda>nm content. if nm = asc ''b.txt'' then Inr None else Inr (Some (asc ''## '' @ nm)))\<rparr>"
  let ?b = "\<lparr>parent = asc ''/d/talks'', name = asc ''b.txt'', pdf_pages = Inr [],
           docx_paragraphs = Inr [], txt_content = Inr (asc ''memo'')\<rparr>"
  let ?a = "\<lparr>parent = asc ''/d/talks'', name = asc ''a.pdf'', pdf_pages = Inr [asc ''page one''],
           docx_paragraphs = Inr [], txt_content = Inr []\<rparr>"
  let ?fo = "\<lparr>folder_name = asc ''talks'', entries = [?b, ?a]\<rparr>"
  have files: "folder_files ?fo = [?a, ?b]"
    by (simp add: folder_files_def glob_def endswith_def asc_def)
  have pa: "process_file ?E ?a = (Some (asc ''## a.pdf''), [(asc ''a.pdf'', asc ''page one'')])"
    by (simp add: process_file_def extract_text_def extract_text_from_pdf_def truncate_text_def
          strip_def isspace_def lower_def suffix_of_def rfind_dot_def startswith_def
          endswith_def asc_def)
  have pb: "process_file ?E ?b = (None, [(asc ''b.txt'', asc ''memo'')])"
    by (simp add: process_file_def extract_text_def lower_def suffix_of_def rfind_dot_def
          startswith_def endswith_def asc_def)
  have te: "type_error 1 = Exception (asc ''sequence item 1: expected str instance, NoneType found'')"
    by (simp add: type_error_def str_nat.simps asc_def)
  have fn: "first_none 0 (map (\<lambda>f. fst (process_file ?E f)) (folder_files ?fo)) = Some 1"
    unfolding files by (simp add: pa pb)
  show ?thesis
    unfolding none_reply_ends_folder[OF fn] te files by (simp add: pa pb)
qed

lemma after_call_results: "results (after_call x st) = results st @ returned x"
  by (simp add: after_call_def Let_def)

lemma after_call_disk: "disk (after_call x st) = disk st @ written x"
  by (simp add: after_call_def Let_def)

lemma main_loop_runs:
  assumes "\<forall>f\<in>set files. (\<exists>b. exists f = Inr b) \<and> (exists f = Inr True \<longrightarrow> mkdir_error f = None)"
  shows "fst (main_loop nd out files st) = None
     \<and> results (snd (main_loop nd out files st)) =
         results st @ concat (map (\<lambda>f. returned (try_block nd out f))
           (filter (\<lambda>f. exists f = Inr True) files))
     \<and> disk (snd (main_loop nd out files st)) =
         disk st @ concat (map (\<lambda>f. written (try_block nd out f))
           (filter (\<lambda>f. exists f = Inr True) files))"
  using assms
proof (induction files arbitrary: st)
  case Nil
  then show ?case by simp
next
  case (Cons f files)
  from Cons.prems have rest:
    "\<forall>f\<in>set files. (\<exists>b. exists f = Inr b) \<and> (exists f = Inr True \<longrightarrow> mkdir_error f = None)"
    by simp
  from Cons.prems obtain b where b: "exists f = Inr b" by auto
  show ?case
  proof (cases b)
    case False
    with b Cons.IH[OF rest, of "st\<lparr>console := console st @ [skip_line (path_str f)]\<rparr>"]
    show ?thesis by simp
  next
    case True
    with b Cons.prems have mk: "mkdir_error f = None" by simp
    let ?st1 = "st\<lparr>console := console st @ [processing_line (name f)]\<rparr>"
    have step: "main_loop nd out (f # files) st =
        main_loop nd out files (after_call (try_block nd out f) ?st1)"
      using True b mk by (simp add: extract_images_from_pdf_def Let_def)
    from Cons.IH[OF rest, of "after_call (try_block nd out f) ?st1"] True b
    show ?thesis
      unfolding step by (simp add: after_call_results after_call_disk)
  qed
qed

lemma try_block_failure:
  assumes "doc_failure f = Some e"
  shows "returned (try_block nd out f) = [] \<and> printed (try_block nd out f) \<noteq> []
     \<and> last (printed (try_block nd out f)) = error_line (path_str f) e"
proof (cases "opened f")
  case (Inl e')
  with assms show ?thesis
    by (simp add: doc_failure_def try_block_def Let_def outer_handler_def)
next
  case (Inr doc)
  let ?start = "\<lparr>returned = [], written = [], printed = []\<rparr>"
  let ?L = "locals_of nd out f"
  obtain r acc where pl: "page_loop ?L 0 (pages doc) ?start = (r, acc)"
    by (cases "page_loop ?L 0 (pages doc) ?start") auto
  from fst_page_loop[of ?L 0 "pages doc" ?start] pl
  have r: "r = (case dropWhile page_ok (pages doc) of Inl e # _ \<Rightarrow> Some e | _ \<Rightarrow> None)"
    by simp
  show ?thesis
  proof (cases r)
    case None
    with r assms Inr have "close_error doc = Some e"
      by (auto simp: doc_failure_def split: list.splits sum.splits)
    with Inr pl None show ?thesis
      by (simp add: try_block_def Let_def outer_handler_def)
  next
    case (Some e')
    with r assms Inr have "e' = e"
      by (auto simp: doc_failure_def split: list.splits sum.splits)
    with Inr pl Some show ?thesis
      by (simp add: try_block_def Let_def outer_handler_def)
  qed
qed

lemma visit_image_caught:
  "extract_image img = Inl e \<Longrightarrow>
   visit_image L i img acc = acc\<lparr>printed := printed acc @ [warning_line (xref img) e]\<rparr>"
  by (simp add: visit_image_def)

lemma visit_image_save_caught:
  "accepted img = Some b \<Longrightarrow> save_error img = Some e \<Longrightarrow>
   visit_image L i img acc = acc\<lparr>printed := printed acc @ [warning_line (xref img) e]\<rparr>"
  by (auto simp: visit_image_def accepted_def Let_def split: sum.splits if_splits)

lemma pdf_error_section:
  assumes "lower E (suffix_of (name d)) = asc ''.pdf''" "pypdf2_installed E" "pdf_pages d = Inl e"
  shows "process_file E d = (Some (error_section (name d) (pdf_error_msg e)), [])"
proof -
  from assms have "extract_text E d = pdf_error_msg e"
    by (simp add: extract_text_def extract_text_from_pdf_def)
  moreover have "bracketed (pdf_error_msg e)"
    by (simp add: bracketed_iff pdf_error_msg_def asc_def)
  ultimately show ?thesis by (simp add: process_file_def bracketed_def)
qed

lemma docx_error_section:
  assumes "lower E (suffix_of (name d)) = asc ''.docx''" "docx_installed E"
    "docx_paragraphs d = Inl e"
  shows "process_file E d = (Some (error_section (name d) (docx_error_msg e)), [])"
proof -
  have "asc ''.docx'' \<noteq> asc ''.pdf''" by (simp add: asc_def)
  with assms have "extract_text E d = docx_error_msg e"
    by (simp add: extract_text_def extract_text_from_docx_def)
  moreover have "bracketed (docx_error_msg e)"
    by (simp add: bracketed_iff docx_error_msg_def asc_def)
  ultimately show ?thesis by (simp add: process_file_def bracketed_def)
qed

lemma txt_error_section:
  assumes "lower E (suffix_of (name d)) = asc ''.txt''" "txt_content d = Inl e"
  shows "process_file E d = (Some (error_section (name d) txt_error_msg), [])"
proof -
  have "asc ''.txt'' \<noteq> asc ''.pdf''" "asc ''.txt'' \<noteq> asc ''.docx''" "asc ''.txt'' \<noteq> asc ''.doc''"
    by (simp_all add: asc_def)
  with assms have "extract_text E d = txt_error_msg"
    by (simp add: extract_text_def)
  moreover have "bracketed txt_error_msg"
    by (simp add: bracketed_iff txt_error_msg_def asc_def)
  ultimately show ?thesis by (simp add: process_file_def bracketed_def)
qed

lemma api_error_section_returned:
  assumes "\<not> bracketed (extract_text E d)" "chat E (name d) (extract_text E d) = Inl e"
  shows "process_file E d = (Some (api_error_section (name d) e), [(name d, extract_text E d)])"
  using assms by (simp add: process_file_def bracketed_def Let_def)

lemma exists_error_ends_main_loop:
  "exists f = Inl e \<Longrightarrow> main_loop nd out (f # rest) st = (Some e, st)"
  by simp

lemma mkdir_error_ends_main_loop:
  "exists f = Inr True \<Longrightarrow> mkdir_error f = Some e \<Longrightarrow>
   main_loop nd out (f # rest) st
     = (Some e, st\<lparr>console := console st @ [processing_line (name f)]\<rparr>)"
  by (simp add: extract_images_from_pdf_def)

subsection \<open>Errors of one file\<close>

text \<open>
  Claim C2: in both scripts an error that arises while one input file is processed is
  caught and becomes a line of the log or an entry of the report, and the files after it
  are processed all the same. The two scripts catch the exceptions raised inside their
  \<open>try\<close> statements (\<open>try_block_failure\<close>, \<open>visit_image_caught\<close>,
  \<open>visit_image_save_caught\<close>, \<open>pdf_error_section\<close>, \<open>docx_error_section\<close>,
  \<open>txt_error_section\<close>, \<open>api_error_section_returned\<close>, \<open>main_loop_runs\<close>), and depart
  from the claim where an error of a file arises outside of them.

  Script 1: \<open>year_dir.mkdir\<close> (line 47) stands before the \<open>try\<close>. In the batch below the
  path \<open>/out/2023\<close> is taken by an ordinary file, the call for \<open>a2023.pdf\<close> raises, the
  exception leaves \<open>extract_images_from_pdf\<close> and the loop of main, and \<open>b2024.pdf\<close>, which
  holds an image, is never looked at: nothing is written and nothing is listed.

  Script 2: the reply of the service for \<open>a.txt\<close> has no content. \<open>process_file\<close> returns
  \<open>None\<close>, the join of line 207 raises a TypeError that no handler catches, the report
  gets the header of the first folder and no entry for \<open>a.txt\<close>, and the second folder,
  with its file \<open>b.txt\<close>, is never processed.
\<close>

theorem one_failure_ends_the_batch:
  "main_loop (\<lambda>_. False) (asc ''/out'')
      [\<lparr>parent = asc ''/d'', name = asc ''a2023.pdf'', exists = Inr True,
        mkdir_error = Some (Exception (asc ''[Errno 17] File exists: /out/2023'')),
        opened = Inr \<lparr>pages = [], close_error = None\<rparr>\<rparr>,
       \<lparr>parent = asc ''/d'', name = asc ''b2024.pdf'', exists = Inr True, mkdir_error = None,
        opened = Inr \<lparr>pages =
          [Inr [\<lparr>xref = 7, extract_image = Inr \<lparr>image_bytes = [137, 80, 78], image_ext = asc ''png'',
               width = 100, height = 80\<rparr>, save_error = None\<rparr>]],
          close_error = None\<rparr>\<rparr>]
      \<lparr>total_images = 0, results = [], disk = [], console = []\<rparr>
   = (Some (Exception (asc ''[Errno 17] File exists: /out/2023'')),
      \<lparr>total_images = 0, results = [], disk = [],
       console = [processing_line (asc ''a2023.pdf'')]\<rparr>)
   \<and> main
      \<lparr>pypdf2_installed = True, docx_installed = True, lower_table = (\<lambda>s. s),
       space_table = (\<lambda>c. False),
       chat = (\<lambda>nm content. if nm = asc ''a.txt'' then Inr None else Inr (Some (asc ''## '' @ nm)))\<rparr>
      (asc ''2025-01-01 00:00'')
      (\<lambda>nm. if nm = asc ''one''
         then Inr (Some \<lparr>folder_name = asc ''one'', entries =
           [\<lparr>parent = asc ''/d/one'', name = asc ''a.txt'', pdf_pages = Inr [],
             docx_paragraphs = Inr [], txt_content = Inr (asc ''memo'')\<rparr>]\<rparr>)
         else if nm = asc ''two''
         then Inr (Some \<lparr>folder_name = asc ''two'', entries =
           [\<lparr>parent = asc ''/d/two'', name = asc ''b.txt'', pdf_pages = Inr [],
             docx_paragraphs = Inr [], txt_content = Inr (asc ''note'')\<rparr>]\<rparr>)
         else Inr None)
      [asc ''process_files.py'', asc ''one'', asc ''two'']
      []
   = (Some (Exception (asc ''sequence item 0: expected str instance, NoneType found'')),
      \<lparr>report = report_head (asc ''2025-01-01 00:00'') @ folder_header (asc ''one''),
       api_calls = [(asc ''a.txt'', asc ''memo'')],
       processed = [asc ''one''], skipped = []\<rparr>)"
proof -
  let ?E = "\<lparr>pypdf2_installed = True, docx_installed = True, lower_table = (\<lambda>s. s),
       space_table = (\<lambda>c. False),
       chat = (\<lambda>nm content. if nm = asc ''a.txt'' then Inr None else Inr (Some (asc ''## '' @ nm)))\<rparr>"
  let ?a = "\<lparr>parent = asc ''/d/one'', name = asc ''a.txt'', pdf_pages = Inr [],
             docx_paragraphs = Inr [], txt_content = Inr (asc ''memo'')\<rparr>"
  let ?one = "\<lparr>folder_name = asc ''one'', entries = [?a]\<rparr>"
  let ?st = "\<lparr>report = report_head (asc ''2025-01-01 00:00''), api_calls = []\<rparr>"
  have files: "folder_files ?one = [?a]"
    by (simp add: folder_files_def glob_def endswith_def asc_def)
  have pa: "process_file ?E ?a = (None, [(asc ''a.txt'', asc ''memo'')])"
    by (simp add: process_file_def extract_text_def lower_def suffix_of_def rfind_dot_def
          startswith_def endswith_def asc_def)
  have te: "type_error 0 = Exception (asc ''sequence item 0: expected str instance, NoneType found'')"
    by (simp add: type_error_def str_nat.simps asc_def)
  have pf: "process_folder ?E (Inr (Some ?one)) ?st
      = (Some (type_error 0),
         \<lparr>report = report_head (asc ''2025-01-01 00:00'') @ folder_header (asc ''one''),
          api_calls = [(asc ''a.txt'', asc ''memo'')]\<rparr>)"
    by (simp add: process_folder_def Let_def files pa py_join_def)
  have ne: "asc ''one'' \<noteq> asc ''two''" by (simp add: asc_def)
  have s2: "main ?E (asc ''2025-01-01 00:00'')
      (\<lambda>nm. if nm = asc ''one''
         then Inr (Some ?one)
         else if nm = asc ''two''
         then Inr (Some \<lparr>folder_name = asc ''two'', entries =
           [\<lparr>parent = asc ''/d/two'', name = asc ''b.txt'', pdf_pages = Inr [],
             docx_paragraphs = Inr [], txt_content = Inr (asc ''note'')\<rparr>]\<rparr>)
         else Inr None)
      [asc ''process_files.py'', asc ''one'', asc ''two''] []
    = (Some (type_error 0),
      \<lparr>report = report_head (asc ''2025-01-01 00:00'') @ folder_header (asc ''one''),
       api_calls = [(asc ''a.txt'', asc ''memo'')],
       processed = [asc ''one''], skipped = []\<rparr>)"
    by (simp add: main_def chosen_folders_def run.truncate_def pf)
  have s1: "main_loop (\<lambda>_. False) (asc ''/out'')
      [\<lparr>parent = asc ''/d'', name = asc ''a2023.pdf'', exists = Inr True,
        mkdir_error = Some (Exception (asc ''[Errno 17] File exists: /out/2023'')),
        opened = Inr \<lparr>pages = [], close_error = None\<rparr>\<rparr>,
       \<lparr>parent = asc ''/d'', name = asc ''b2024.pdf'', exists = Inr True, mkdir_error = None,
        opened = Inr \<lparr>pages =
          [Inr [\<lparr>xref = 7, extract_image = Inr \<lparr>image_bytes = [137, 80, 78], image_ext = asc ''png'',
               width = 100, height = 80\<rparr>, save_error = None\<rparr>]],
          close_error = None\<rparr>\<rparr>]
      \<lparr>total_images = 0, results = [], disk = [], console = []\<rparr>
   = (Some (Exception (asc ''[Errno 17] File exists: /out/2023'')),
      \<lparr>total_images = 0, results = [], disk = [],
       console = [processing_line (asc ''a2023.pdf'')]\<rparr>)"
    by (simp add: extract_images_from_pdf_def)
  from s1 s2 show ?thesis unfolding te by (rule conjI)
qed

end
